theory Spec2Isabelle
  imports Main
begin

section \<open>Strings as the program uses them\<close>

text \<open>
  Source text and log text are JavaScript strings. They are modelled as \<open>string\<close>
  (a list of one-byte code units); a line break is the code unit 10.
\<close>

definition newline :: char where
  "newline = CHR 0x0A"

text \<open>\<open>content.split("\n")\<close>: always at least one line; the empty text is one empty line.\<close>

fun split_lines :: "string \<Rightarrow> string list" where
  "split_lines [] = [[]]"
| "split_lines (c # cs) =
     (let r = split_lines cs
      in if c = newline then [] # r else (c # hd r) # tl r)"

text \<open>\<open>lines.join("\n")\<close>: the empty array joins to the empty text.\<close>

fun join_lines :: "string list \<Rightarrow> string" where
  "join_lines [] = []"
| "join_lines [l] = l"
| "join_lines (l # m # ls) = l @ newline # join_lines (m # ls)"

text \<open>\<open>strip_prefix p s\<close>: the rest of \<open>s\<close> after \<open>p\<close>, when \<open>s\<close> starts with \<open>p\<close>.\<close>

fun strip_prefix :: "string \<Rightarrow> string \<Rightarrow> string option" where
  "strip_prefix [] s = Some s"
| "strip_prefix (p # ps) [] = None"
| "strip_prefix (p # ps) (c # cs) = (if p = c then strip_prefix ps cs else None)"

section \<open>Marker codec (instrumentation-patterns.ts)\<close>

text \<open>The character class \<open>[a-z0-9]\<close> of the marker-tag regular expressions.\<close>

definition is_id_char :: "char \<Rightarrow> bool" where
  "is_id_char c = (c \<in> set ''abcdefghijklmnopqrstuvwxyz0123456789'')"

text \<open>
  One attempt of the regular expression \<open>\[DEBUG-HELPER:([a-z0-9]+)\]\<close> at the very start
  of \<open>s\<close>: the captured id and the text after the closing bracket. The class excludes
  \<open>]\<close>, so the greedy run of id characters is the only candidate for the group.
\<close>

definition match_tag_here :: "string \<Rightarrow> (string \<times> string) option" where
  "match_tag_here s =
     (case strip_prefix ''[DEBUG-HELPER:'' s of
        None \<Rightarrow> None
      | Some r \<Rightarrow>
          (let ident = takeWhile is_id_char r; rest = dropWhile is_id_char r
           in if ident \<noteq> [] \<and> take 1 rest = '']'' then Some (ident, drop 1 rest) else None))"

text \<open>\<open>line.match(/\[DEBUG-HELPER:([a-z0-9]+)\]/)\<close>: group 1 of the leftmost match.\<close>

fun extractMarkerId :: "string \<Rightarrow> string option" where
  "extractMarkerId [] = None"
| "extractMarkerId (c # cs) =
     (case match_tag_here (c # cs) of
        Some (ident, rest) \<Rightarrow> Some ident
      | None \<Rightarrow> extractMarkerId cs)"

text \<open>
  \<open>/\[DEBUG-HELPER:[a-z0-9]+\] KW/.test(line)\<close> for a keyword text \<open>kw\<close> (\<open>" START"\<close> or
  \<open>" END"\<close>): some position of the line carries the tag followed by the keyword.
\<close>

fun tag_then :: "string \<Rightarrow> string \<Rightarrow> bool" where
  "tag_then kw [] = False"
| "tag_then kw (c # cs) =
     (case match_tag_here (c # cs) of
        Some (ident, rest) \<Rightarrow> (if strip_prefix kw rest \<noteq> None then True else tag_then kw cs)
      | None \<Rightarrow> tag_then kw cs)"

definition isStartMarker :: "string \<Rightarrow> bool" where
  "isStartMarker line = tag_then '' START'' line"

definition isEndMarker :: "string \<Rightarrow> bool" where
  "isEndMarker line = tag_then '' END'' line"

section \<open>Removing one marker's block\<close>

text \<open>
  The loop of \<open>removeInstrumentationBlock\<close>: \<open>inTargetBlock\<close> is the flag, the result is
  the list of lines pushed.
\<close>

fun remove_loop :: "string \<Rightarrow> bool \<Rightarrow> string list \<Rightarrow> string list" where
  "remove_loop markerId inTargetBlock [] = []"
| "remove_loop markerId inTargetBlock (line # ls) =
     (let lineMarkerId = extractMarkerId line
      in if isStartMarker line \<and> lineMarkerId = Some markerId then remove_loop markerId True ls
         else if isEndMarker line \<and> lineMarkerId = Some markerId then remove_loop markerId False ls
         else if \<not> inTargetBlock then line # remove_loop markerId inTargetBlock ls
         else remove_loop markerId inTargetBlock ls)"

definition removeInstrumentationBlock :: "string \<Rightarrow> string \<Rightarrow> string" where
  "removeInstrumentationBlock content markerId =
     join_lines (remove_loop markerId False (split_lines content))"

text \<open>A line carries a start (end) marker of id \<open>x\<close>, as the remover tests it.\<close>

definition start_of :: "string \<Rightarrow> string \<Rightarrow> bool" where
  "start_of x line = (isStartMarker line \<and> extractMarkerId line = Some x)"

definition end_of :: "string \<Rightarrow> string \<Rightarrow> bool" where
  "end_of x line = (isEndMarker line \<and> extractMarkerId line = Some x)"

section \<open>Lines\<close>

lemma split_lines_nonempty: "split_lines s \<noteq> []"
  by (cases s) (simp_all add: Let_def)

lemma join_split_lines: "join_lines (split_lines s) = s"
proof (induction s)
  case Nil
  show ?case by simp
next
  case (Cons c cs)
  obtain l ls where r: "split_lines cs = l # ls"
    using split_lines_nonempty [of cs] by (cases "split_lines cs") auto
  from Cons r show ?case
    by (cases ls) (auto simp: Let_def)
qed

lemma join_lines_Cons: "ls \<noteq> [] \<Longrightarrow> join_lines (l # ls) = l @ newline # join_lines ls"
  by (cases ls) simp_all

lemma split_lines_append:
  "split_lines (a @ newline # b) = split_lines a @ split_lines b"
proof (induction a)
  case Nil
  show ?case by (simp add: Let_def)
next
  case (Cons c cs)
  obtain l ls where r: "split_lines cs = l # ls"
    using split_lines_nonempty [of cs] by (cases "split_lines cs") auto
  from Cons r show ?case by (simp add: Let_def)
qed

lemma split_lines_single: "newline \<notin> set l \<Longrightarrow> split_lines l = [l]"
  by (induction l) (auto simp: Let_def)

lemma split_join_lines:
  "ls \<noteq> [] \<Longrightarrow> list_all (\<lambda>l. newline \<notin> set l) ls \<Longrightarrow> split_lines (join_lines ls) = ls"
proof (induction ls rule: join_lines.induct)
  case 1
  then show ?case by simp
next
  case (2 l)
  then show ?case by (simp add: split_lines_single)
next
  case (3 l m ls)
  then show ?case by (simp add: split_lines_append split_lines_single)
qed

section \<open>The remover on a list of lines\<close>

lemma remove_loop_outside:
  "list_all (\<lambda>l. \<not> start_of x l \<and> \<not> end_of x l) pre \<Longrightarrow>
   remove_loop x False (pre @ rest) = pre @ remove_loop x False rest"
  by (induction pre) (auto simp: start_of_def end_of_def Let_def)

lemma remove_loop_inside:
  "list_all (\<lambda>l. \<not> end_of x l) ls \<Longrightarrow> remove_loop x True ls = []"
  by (induction ls) (auto simp: end_of_def Let_def)

text \<open>
  C10. When the lines of the content are \<open>pre\<close>, then the one start-marker line \<open>s\<close> of id
  \<open>x\<close>, then \<open>post\<close>, and no line of the content is an end-marker line of id \<open>x\<close>,
  \<open>removeInstrumentationBlock\<close> returns exactly the lines of \<open>pre\<close>: the start line and
  everything after it, to the end of the input, is deleted.
\<close>

theorem remove_unterminated_block_to_eof:
  assumes "split_lines content = pre @ s # post"
    and "start_of x s"
    and "list_all (\<lambda>l. \<not> start_of x l) (pre @ post)"
    and "list_all (\<lambda>l. \<not> end_of x l) (pre @ s # post)"
  shows "removeInstrumentationBlock content x = join_lines pre"
proof -
  from assms(3,4) have pre: "list_all (\<lambda>l. \<not> start_of x l \<and> \<not> end_of x l) pre"
    by (simp add: list_all_iff)
  from assms(4) have post: "list_all (\<lambda>l. \<not> end_of x l) post"
    by simp
  have "remove_loop x False (pre @ s # post) = pre @ remove_loop x False (s # post)"
    using pre by (rule remove_loop_outside)
  also have "remove_loop x False (s # post) = remove_loop x True post"
    using assms(2) by (simp add: start_of_def Let_def)
  also have "\<dots> = []"
    using post by (rule remove_loop_inside)
  finally show ?thesis
    by (simp add: removeInstrumentationBlock_def assms(1))
qed

definition c10_content :: string where
  "c10_content = ''a\<newline>// [DEBUG-HELPER:abc] START\<newline>b\<newline>c''"

theorem remove_unterminated_block_to_eof_witness:
  "split_lines c10_content = [''a''] @ ''// [DEBUG-HELPER:abc] START'' # [''b'', ''c'']
   \<and> removeInstrumentationBlock c10_content ''abc'' = ''a''"
proof -
  have 1: "split_lines c10_content = [''a''] @ ''// [DEBUG-HELPER:abc] START'' # [''b'', ''c'']"
    by code_simp
  have 2: "start_of ''abc'' ''// [DEBUG-HELPER:abc] START''"
    by code_simp
  have 3: "list_all (\<lambda>l. \<not> start_of ''abc'' l) ([''a''] @ [''b'', ''c''])"
    by code_simp
  have 4: "list_all (\<lambda>l. \<not> end_of ''abc'' l) ([''a''] @ ''// [DEBUG-HELPER:abc] START'' # [''b'', ''c''])"
    by code_simp
  show ?thesis
    using 1 remove_unterminated_block_to_eof [OF 1 2 3 4] by simp
qed

section \<open>Scanning for blocks\<close>

text \<open>
  \<open>findInstrumentationBlocks\<close> walks the lines once. \<open>current_block\<close> is the object held in
  \<open>currentBlock\<close> (\<open>None\<close> for \<open>null\<close>); \<open>i\<close> is the zero-based index of the line, so line
  numbers in the result are \<open>i + 1\<close>. The blocks are returned in the order they are pushed.
\<close>


record found_block =
  blk_markerId :: string
  blk_startLine :: nat
  blk_endLine :: nat
  blk_content :: string

record current_block =
  cur_markerId :: string
  cur_startLine :: nat
  cur_lines :: "string list"

fun scan_loop :: "nat \<Rightarrow> current_block option \<Rightarrow> string list \<Rightarrow> found_block list" where
  "scan_loop i currentBlock [] = []"
| "scan_loop i currentBlock (line # ls) =
     (if isStartMarker line then
        (case extractMarkerId line of
           Some m \<Rightarrow>
             (if m \<noteq> [] then
                scan_loop (i + 1)
                  (Some \<lparr>cur_markerId = m, cur_startLine = i + 1, cur_lines = [line]\<rparr>) ls
              else scan_loop (i + 1) currentBlock ls)
         | None \<Rightarrow> scan_loop (i + 1) currentBlock ls)
      else
        (case currentBlock of
           None \<Rightarrow> scan_loop (i + 1) None ls
         | Some cb \<Rightarrow>
             (if isEndMarker line then
                (if extractMarkerId line = Some (cur_markerId cb) then
                   \<lparr>blk_markerId = cur_markerId cb, blk_startLine = cur_startLine cb, blk_endLine = i + 1,
                    blk_content = join_lines (cur_lines cb @ [line])\<rparr> # scan_loop (i + 1) None ls
                 else scan_loop (i + 1) (Some cb) ls)
              else scan_loop (i + 1) (Some (cb\<lparr>cur_lines := cur_lines cb @ [line]\<rparr>)) ls)))"

definition findInstrumentationBlocks :: "string \<Rightarrow> string \<Rightarrow> found_block list" where
  "findInstrumentationBlocks content filePath = scan_loop 0 None (split_lines content)"

lemma match_tag_here_id: "match_tag_here s = Some (m, r) \<Longrightarrow> m \<noteq> [] \<and> list_all is_id_char m"
  by (auto simp: match_tag_here_def Let_def list_all_iff split: option.splits if_splits dest: set_takeWhileD)

lemma extractMarkerId_id: "extractMarkerId l = Some m \<Longrightarrow> m \<noteq> [] \<and> list_all is_id_char m"
proof (induction l)
  case Nil
  then show ?case by simp
next
  case (Cons c cs)
  then show ?case
    by (cases "match_tag_here (c # cs)") (auto dest: match_tag_here_id)
qed

lemma scan_loop_open:
  assumes "list_all (\<lambda>l. \<not> isStartMarker l \<and> \<not> end_of x l) mid"
    and "\<not> isStartMarker ex" and "end_of x ex" and "cur_markerId cb = x"
  shows "scan_loop j (Some cb) (mid @ ex # post) =
           \<lparr>blk_markerId = x, blk_startLine = cur_startLine cb, blk_endLine = j + length mid + 1,
            blk_content = join_lines (cur_lines cb @ filter (\<lambda>l. \<not> isEndMarker l) mid @ [ex])\<rparr>
           # scan_loop (j + length mid + 1) None post"
  using assms
proof (induction mid arbitrary: j cb)
  case Nil
  then show ?case by (simp add: end_of_def)
next
  case (Cons l mid)
  show ?case
  proof (cases "isEndMarker l")
    case True
    with Cons.prems have "scan_loop j (Some cb) ((l # mid) @ ex # post) = scan_loop (j + 1) (Some cb) (mid @ ex # post)"
      by (simp add: end_of_def)
    also have "\<dots> = \<lparr>blk_markerId = x, blk_startLine = cur_startLine cb, blk_endLine = (j + 1) + length mid + 1,
            blk_content = join_lines (cur_lines cb @ filter (\<lambda>l. \<not> isEndMarker l) mid @ [ex])\<rparr>
           # scan_loop ((j + 1) + length mid + 1) None post"
      using Cons.prems by (intro Cons.IH) simp_all
    finally show ?thesis using True by simp
  next
    case False
    let ?cb = "cb\<lparr>cur_lines := cur_lines cb @ [l]\<rparr>"
    from False Cons.prems have "scan_loop j (Some cb) ((l # mid) @ ex # post) = scan_loop (j + 1) (Some ?cb) (mid @ ex # post)"
      by simp
    also have "\<dots> = \<lparr>blk_markerId = x, blk_startLine = cur_startLine ?cb, blk_endLine = (j + 1) + length mid + 1,
            blk_content = join_lines (cur_lines ?cb @ filter (\<lambda>l. \<not> isEndMarker l) mid @ [ex])\<rparr>
           # scan_loop ((j + 1) + length mid + 1) None post"
      using Cons.prems by (intro Cons.IH) simp_all
    finally show ?thesis using False by simp
  qed
qed

lemma scan_loop_block:
  assumes "start_of x sx"
    and "list_all (\<lambda>l. \<not> isStartMarker l \<and> \<not> end_of x l) mid"
    and "\<not> isStartMarker ex" and "end_of x ex"
  shows "scan_loop i cur (sx # mid @ ex # post) =
           \<lparr>blk_markerId = x, blk_startLine = i + 1, blk_endLine = i + length mid + 2,
            blk_content = join_lines (sx # filter (\<lambda>l. \<not> isEndMarker l) mid @ [ex])\<rparr>
           # scan_loop (i + length mid + 2) None post"
proof -
  from assms(1) have x: "x \<noteq> []" and sx: "isStartMarker sx" "extractMarkerId sx = Some x"
    using extractMarkerId_id [of sx x] by (simp_all add: start_of_def)
  let ?cb = "\<lparr>cur_markerId = x, cur_startLine = i + 1, cur_lines = [sx]\<rparr>"
  have "scan_loop i cur (sx # mid @ ex # post) = scan_loop (i + 1) (Some ?cb) (mid @ ex # post)"
    using x sx by simp
  also have "\<dots> = \<lparr>blk_markerId = x, blk_startLine = cur_startLine ?cb, blk_endLine = (i + 1) + length mid + 1,
            blk_content = join_lines (cur_lines ?cb @ filter (\<lambda>l. \<not> isEndMarker l) mid @ [ex])\<rparr>
           # scan_loop ((i + 1) + length mid + 1) None post"
    using assms(2-4) by (intro scan_loop_open) simp_all
  finally show ?thesis by simp
qed


lemma scan_ex_same: "\<exists>b c. scan_loop j X xs = b @ scan_loop j c xs"
  by (rule exI [of _ "[]"]) auto

lemma scan_ex_push: "\<exists>b c. blk # scan_loop j X xs = b @ scan_loop j c xs"
  by (rule exI [of _ "[blk]"]) auto

lemma scan_loop_step:
  "\<exists>b c. scan_loop i cur (l # xs) = b @ scan_loop (Suc i) c xs"
  by (simp add: scan_ex_same scan_ex_push split: option.splits)

lemma scan_loop_prefix:
  "\<exists>bs cur'. scan_loop i cur (pre @ rest) = bs @ scan_loop (i + length pre) cur' rest"
proof (induction pre arbitrary: i cur)
  case Nil
  show ?case by (simp add: scan_ex_same)
next
  case (Cons l pre)
  obtain b c where "scan_loop i cur (l # pre @ rest) = b @ scan_loop (Suc i) c (pre @ rest)"
    using scan_loop_step by blast
  moreover obtain bs c' where "scan_loop (Suc i) c (pre @ rest) = bs @ scan_loop (Suc i + length pre) c' rest"
    using Cons.IH by blast
  ultimately have "scan_loop i cur ((l # pre) @ rest) = (b @ bs) @ scan_loop (i + length (l # pre)) c' rest"
    by simp
  then show ?case by blast
qed

lemma scan_loop_start_resets:
  assumes "start_of x sx"
  shows "scan_loop i cur (sx # rest) = scan_loop i None (sx # rest)"
proof -
  from assms have "isStartMarker sx" "extractMarkerId sx = Some x" "x \<noteq> []"
    using extractMarkerId_id [of sx x] by (simp_all add: start_of_def)
  then show ?thesis by simp
qed

lemma scan_loop_before_start:
  assumes "start_of x sx"
  shows "scan_loop i cur (pre @ sx # rest) =
           scan_loop i cur pre @ scan_loop (i + length pre) None (sx # rest)"
proof (induction pre arbitrary: i cur)
  case Nil
  show ?case
    using scan_loop_start_resets [OF assms, of i cur rest] by simp
next
  case (Cons l pre)
  show ?case
    using Cons.IH by (simp split: option.splits)
qed

lemma tag_then_has_id: "tag_then kw l \<Longrightarrow> \<exists>x. extractMarkerId l = Some x"
  by (induction l) (auto split: option.splits)

lemma scan_loop_sound:
  assumes "b \<in> set (scan_loop i cur ls)"
  shows "\<exists>k<length ls. blk_endLine b = i + k + 1 \<and> \<not> isStartMarker (ls ! k)
           \<and> end_of (blk_markerId b) (ls ! k)
           \<and> ((\<exists>j<k. blk_startLine b = i + j + 1 \<and> start_of (blk_markerId b) (ls ! j)
                  \<and> (\<forall>t. j < t \<and> t < k \<longrightarrow> \<not> isStartMarker (ls ! t)))
              \<or> (\<exists>cb. cur = Some cb \<and> blk_startLine b = cur_startLine cb
                  \<and> blk_markerId b = cur_markerId cb \<and> (\<forall>t<k. \<not> isStartMarker (ls ! t))))"
  using assms
proof (induction ls arbitrary: i cur)
  case Nil
  then show ?case by simp
next
  case (Cons l ls)
  let ?P = "\<lambda>i cur ls k. k < length ls \<and> blk_endLine b = i + k + 1 \<and> \<not> isStartMarker (ls ! k)
           \<and> end_of (blk_markerId b) (ls ! k)
           \<and> ((\<exists>j<k. blk_startLine b = i + j + 1 \<and> start_of (blk_markerId b) (ls ! j)
                  \<and> (\<forall>t. j < t \<and> t < k \<longrightarrow> \<not> isStartMarker (ls ! t)))
              \<or> (\<exists>cb. cur = Some cb \<and> blk_startLine b = cur_startLine cb
                  \<and> blk_markerId b = cur_markerId cb \<and> (\<forall>t<k. \<not> isStartMarker (ls ! t))))"
  have shift_left: "?P i cur (l # ls) (Suc k)"
    if "k < length ls" "blk_endLine b = Suc i + k + 1" "\<not> isStartMarker (ls ! k)"
      "end_of (blk_markerId b) (ls ! k)"
      "j < k" "blk_startLine b = Suc i + j + 1" "start_of (blk_markerId b) (ls ! j)"
      "\<forall>t. j < t \<and> t < k \<longrightarrow> \<not> isStartMarker (ls ! t)" for k j
  proof -
    have "\<forall>t. Suc j < t \<and> t < Suc k \<longrightarrow> \<not> isStartMarker ((l # ls) ! t)"
      using that(8) by (auto simp: nth_Cons split: nat.splits)
    then have "\<exists>j'<Suc k. blk_startLine b = i + j' + 1 \<and> start_of (blk_markerId b) ((l # ls) ! j')
        \<and> (\<forall>t. j' < t \<and> t < Suc k \<longrightarrow> \<not> isStartMarker ((l # ls) ! t))"
      using that(5,6,7) by (intro exI [of _ "Suc j"]) simp
    then show ?thesis
      using that(1-4) by simp
  qed
  have shift_right: "?P i cur (l # ls) (Suc k)"
    if "k < length ls" "blk_endLine b = Suc i + k + 1" "\<not> isStartMarker (ls ! k)"
      "end_of (blk_markerId b) (ls ! k)"
      "\<forall>t<k. \<not> isStartMarker (ls ! t)"
      "(start_of (blk_markerId b) l \<and> blk_startLine b = i + 1)
       \<or> (\<not> isStartMarker l \<and> (\<exists>cb. cur = Some cb \<and> blk_startLine b = cur_startLine cb
             \<and> blk_markerId b = cur_markerId cb))" for k
  proof -
    from that(6) show ?thesis
    proof
      assume a: "start_of (blk_markerId b) l \<and> blk_startLine b = i + 1"
      have "\<forall>t. 0 < t \<and> t < Suc k \<longrightarrow> \<not> isStartMarker ((l # ls) ! t)"
        using that(5) by (auto simp: nth_Cons split: nat.splits)
      then have "\<exists>j'<Suc k. blk_startLine b = i + j' + 1 \<and> start_of (blk_markerId b) ((l # ls) ! j')
          \<and> (\<forall>t. j' < t \<and> t < Suc k \<longrightarrow> \<not> isStartMarker ((l # ls) ! t))"
        using a by (intro exI [of _ 0]) simp
      then show ?thesis
        using that(1-4) by simp
    next
      assume a: "\<not> isStartMarker l \<and> (\<exists>cb. cur = Some cb \<and> blk_startLine b = cur_startLine cb
             \<and> blk_markerId b = cur_markerId cb)"
      have "\<forall>t<Suc k. \<not> isStartMarker ((l # ls) ! t)"
        using that(5) a by (auto simp: nth_Cons split: nat.splits)
      then show ?thesis
        using that(1-4) a by simp
    qed
  qed
  have step: "\<exists>k. ?P i cur (l # ls) k"
    if mem: "b \<in> set (scan_loop (Suc i) cur' ls)"
      and link: "\<And>cb'. cur' = Some cb' \<Longrightarrow>
         (start_of (cur_markerId cb') l \<and> cur_startLine cb' = i + 1)
         \<or> (\<not> isStartMarker l \<and> (\<exists>cb. cur = Some cb \<and> cur_startLine cb' = cur_startLine cb
               \<and> cur_markerId cb' = cur_markerId cb))" for cur'
  proof -
    from Cons.IH [OF mem] obtain k where k: "?P (Suc i) cur' ls k"
      by blast
    then consider
      (left) j where "j < k" "blk_startLine b = Suc i + j + 1" "start_of (blk_markerId b) (ls ! j)"
        "\<forall>t. j < t \<and> t < k \<longrightarrow> \<not> isStartMarker (ls ! t)"
      | (right) cb' where "cur' = Some cb'" "blk_startLine b = cur_startLine cb'"
        "blk_markerId b = cur_markerId cb'" "\<forall>t<k. \<not> isStartMarker (ls ! t)"
      by blast
    then show ?thesis
    proof cases
      case left
      then have "?P i cur (l # ls) (Suc k)"
        using k by (intro shift_left) simp_all
      then show ?thesis ..
    next
      case right
      have "?P i cur (l # ls) (Suc k)"
        using k right link [OF right(1)] by (intro shift_right) auto
      then show ?thesis ..
    qed
  qed
  show ?case
  proof (cases "isStartMarker l")
    case True
    then obtain m where m: "extractMarkerId l = Some m"
      using tag_then_has_id [of "'' START''" l] by (auto simp: isStartMarker_def)
    then have ne: "m \<noteq> []"
      using extractMarkerId_id by blast
    let ?cb = "\<lparr>cur_markerId = m, cur_startLine = i + 1, cur_lines = [l]\<rparr>"
    from Cons.prems True m ne have mem: "b \<in> set (scan_loop (Suc i) (Some ?cb) ls)"
      by simp
    have "\<exists>k. ?P i cur (l # ls) k"
      using True m by (intro step [OF mem]) (auto simp: start_of_def)
    then show ?thesis by blast
  next
    case False
    show ?thesis
    proof (cases cur)
      case None
      with Cons.prems False have "b \<in> set (scan_loop (Suc i) None ls)"
        by simp
      then have "\<exists>k. ?P i cur (l # ls) k"
        by (rule step) simp
      then show ?thesis by blast
    next
      case (Some cb)
      show ?thesis
      proof (cases "isEndMarker l \<and> extractMarkerId l = Some (cur_markerId cb)")
        case True
        with Cons.prems False Some have
          "b = \<lparr>blk_markerId = cur_markerId cb, blk_startLine = cur_startLine cb, blk_endLine = i + 1,
                blk_content = join_lines (cur_lines cb @ [l])\<rparr>
           \<or> b \<in> set (scan_loop (Suc i) None ls)"
          by simp
        then show ?thesis
        proof
          assume b: "b = \<lparr>blk_markerId = cur_markerId cb, blk_startLine = cur_startLine cb, blk_endLine = i + 1,
                blk_content = join_lines (cur_lines cb @ [l])\<rparr>"
          have "?P i cur (l # ls) 0"
            using b True False Some by (simp add: end_of_def)
          then show ?thesis by blast
        next
          assume "b \<in> set (scan_loop (Suc i) None ls)"
          then have "\<exists>k. ?P i cur (l # ls) k"
            by (rule step) simp
          then show ?thesis by blast
        qed
      next
        case nomatch: False
        then obtain cb' where mem: "b \<in> set (scan_loop (Suc i) (Some cb') ls)"
          and same: "cur_startLine cb' = cur_startLine cb" "cur_markerId cb' = cur_markerId cb"
          using Cons.prems False Some by (cases "isEndMarker l") auto
        have "\<exists>k. ?P i cur (l # ls) k"
          using False Some same by (intro step [OF mem]) auto
        then show ?thesis by blast
      qed
    qed
  qed
qed

text \<open>
  C4 (as the code has it). A start-marker line \<open>sx\<close> opens a block for its own id whatever
  the state of the scan: the result is the blocks closed in the lines \<open>pre\<close> before it,
  followed by what a fresh scan reports from \<open>sx\<close> on, so a block still open at \<open>sx\<close> is
  abandoned. The block of id \<open>x\<close> opened by \<open>sx\<close> is closed and reported by the end-marker
  line \<open>ex\<close> of \<open>x\<close> when \<open>ex\<close> is not itself a start-marker line and the lines \<open>mid\<close> in
  between hold no start-marker line of any id and no end-marker line of \<open>x\<close>; end-marker
  lines of other ids in \<open>mid\<close> are skipped and left out of the block's content; after \<open>ex\<close>
  the scan goes on with no block open. Every block that the scan reports runs from a
  start-marker line of its id to a later end-marker line of its id that is not itself a
  start-marker line, with no start-marker line of any id in between: an abandoned block is
  never reported.
\<close>

theorem scan_start_abandons_open_block:
  assumes "split_lines content = pre @ sx # rest"
    and "start_of x sx"
  shows "findInstrumentationBlocks content filePath =
           scan_loop 0 None pre @ scan_loop (length pre) None (sx # rest)
         \<and> (rest = mid @ ex # post
              \<and> list_all (\<lambda>l. \<not> isStartMarker l \<and> \<not> end_of x l) mid
              \<and> \<not> isStartMarker ex \<and> end_of x ex \<longrightarrow>
            findInstrumentationBlocks content filePath =
              scan_loop 0 None pre
              @ \<lparr>blk_markerId = x, blk_startLine = length pre + 1,
                  blk_endLine = length pre + length mid + 2,
                  blk_content = join_lines (sx # filter (\<lambda>l. \<not> isEndMarker l) mid @ [ex])\<rparr>
              # scan_loop (length pre + length mid + 2) None post)
         \<and> (\<forall>b \<in> set (findInstrumentationBlocks content filePath).
              \<exists>j k. j < k \<and> k < length (split_lines content)
                \<and> blk_startLine b = j + 1 \<and> blk_endLine b = k + 1
                \<and> start_of (blk_markerId b) (split_lines content ! j)
                \<and> end_of (blk_markerId b) (split_lines content ! k)
                \<and> \<not> isStartMarker (split_lines content ! k)
                \<and> (\<forall>t. j < t \<and> t < k \<longrightarrow> \<not> isStartMarker (split_lines content ! t)))"
proof -
  have fresh: "findInstrumentationBlocks content filePath =
      scan_loop 0 None pre @ scan_loop (length pre) None (sx # rest)"
    using scan_loop_before_start [OF assms(2), of 0 None pre rest]
    by (simp add: findInstrumentationBlocks_def assms(1))
  have closed: "scan_loop (length pre) None (sx # mid @ ex # post) =
      \<lparr>blk_markerId = x, blk_startLine = length pre + 1,
        blk_endLine = length pre + length mid + 2,
        blk_content = join_lines (sx # filter (\<lambda>l. \<not> isEndMarker l) mid @ [ex])\<rparr>
      # scan_loop (length pre + length mid + 2) None post"
    if "list_all (\<lambda>l. \<not> isStartMarker l \<and> \<not> end_of x l) mid"
      and "\<not> isStartMarker ex" and "end_of x ex"
    using scan_loop_block [OF assms(2) that] .
  have sound: "\<exists>j k. j < k \<and> k < length (split_lines content)
      \<and> blk_startLine b = j + 1 \<and> blk_endLine b = k + 1
      \<and> start_of (blk_markerId b) (split_lines content ! j)
      \<and> end_of (blk_markerId b) (split_lines content ! k)
      \<and> \<not> isStartMarker (split_lines content ! k)
      \<and> (\<forall>t. j < t \<and> t < k \<longrightarrow> \<not> isStartMarker (split_lines content ! t))"
    if "b \<in> set (findInstrumentationBlocks content filePath)" for b
    using scan_loop_sound [of b 0 None "split_lines content"] that
    by (auto simp: findInstrumentationBlocks_def)
  show ?thesis
    using fresh closed sound by (intro conjI impI ballI) auto
qed

text \<open>
  The claim as stated fails: with a start-marker line of \<open>bbb\<close> between the start and the end
  line of \<open>aaa\<close>, the scan reports no block at all.
\<close>

definition c4_text :: string where
  "c4_text = ''// [DEBUG-HELPER:aaa] START\<newline>// [DEBUG-HELPER:bbb] START\<newline>// [DEBUG-HELPER:aaa] END''"

theorem scan_inner_start_counterexample:
  "split_lines c4_text = [''// [DEBUG-HELPER:aaa] START'', ''// [DEBUG-HELPER:bbb] START'', ''// [DEBUG-HELPER:aaa] END'']
   \<and> start_of ''aaa'' ''// [DEBUG-HELPER:aaa] START''
   \<and> start_of ''bbb'' ''// [DEBUG-HELPER:bbb] START''
   \<and> end_of ''aaa'' ''// [DEBUG-HELPER:aaa] END''
   \<and> findInstrumentationBlocks c4_text ''a.js'' = []"
  by code_simp

text \<open>
  A text in which block \<open>bbb\<close> is open when the start line of \<open>aaa\<close> comes: \<open>bbb\<close> is never
  reported, its end-marker line inside block \<open>aaa\<close> is left out, and \<open>aaa\<close> is the only block.
\<close>

definition c4_ok_text :: string where
  "c4_ok_text = ''// [DEBUG-HELPER:bbb] START\<newline>x\<newline>// [DEBUG-HELPER:aaa] START\<newline>y\<newline>// [DEBUG-HELPER:bbb] END\<newline>// [DEBUG-HELPER:aaa] END\<newline>z''"

theorem scan_start_abandons_open_block_witness:
  "findInstrumentationBlocks c4_ok_text ''a.js'' =
     [\<lparr>blk_markerId = ''aaa'', blk_startLine = 3, blk_endLine = 6,
        blk_content = ''// [DEBUG-HELPER:aaa] START\<newline>y\<newline>// [DEBUG-HELPER:aaa] END''\<rparr>]"
proof -
  let ?pre = "[''// [DEBUG-HELPER:bbb] START'', ''x'']"
  let ?sx = "''// [DEBUG-HELPER:aaa] START''"
  let ?mid = "[''y'', ''// [DEBUG-HELPER:bbb] END'']"
  let ?ex = "''// [DEBUG-HELPER:aaa] END''"
  have 1: "split_lines c4_ok_text = ?pre @ ?sx # (?mid @ ?ex # [''z''])"
    by code_simp
  have 2: "start_of ''aaa'' ?sx"
    by code_simp
  have 3: "list_all (\<lambda>l. \<not> isStartMarker l \<and> \<not> end_of ''aaa'' l) ?mid"
    by code_simp
  have 4: "\<not> isStartMarker ?ex" and 5: "end_of ''aaa'' ?ex"
    by code_simp+
  have 6: "scan_loop 0 None ?pre = []" and 7: "scan_loop (length ?pre + length ?mid + 2) None [''z''] = []"
    by code_simp+
  have 8: "join_lines (?sx # filter (\<lambda>l. \<not> isEndMarker l) ?mid @ [?ex])
      = ''// [DEBUG-HELPER:aaa] START\<newline>y\<newline>// [DEBUG-HELPER:aaa] END''"
    by code_simp
  have "findInstrumentationBlocks c4_ok_text ''a.js'' =
      scan_loop 0 None ?pre
      @ \<lparr>blk_markerId = ''aaa'', blk_startLine = length ?pre + 1,
          blk_endLine = length ?pre + length ?mid + 2,
          blk_content = join_lines (?sx # filter (\<lambda>l. \<not> isEndMarker l) ?mid @ [?ex])\<rparr>
      # scan_loop (length ?pre + length ?mid + 2) None [''z'']"
    using conjunct1 [OF conjunct2 [OF scan_start_abandons_open_block [OF 1 2, of "''a.js''" ?mid ?ex "[''z'']"]]] 3 4 5
    by blast
  then show ?thesis
    unfolding 6 7 8 by simp
qed

section \<open>Pattern registry\<close>

record InstrumentationPattern =
  log_template :: string
  start_marker :: "string \<Rightarrow> string"
  end_marker :: "string \<Rightarrow> string"
  extensions :: "string list"
  comment_single :: string
  comment_multi :: "(string \<times> string) option"

definition JS_TS_PATTERN :: InstrumentationPattern where
  \<open>JS_TS_PATTERN = \<lparr>
     log_template = ''console.log("[{marker_id}] {label}:", {expression});'',
     start_marker = (\<lambda>ident. ''// [DEBUG-HELPER:'' @ ident @ ''] START''),
     end_marker = (\<lambda>ident. ''// [DEBUG-HELPER:'' @ ident @ ''] END''),
     extensions = [''.js'', ''.jsx'', ''.ts'', ''.tsx'', ''.mjs'', ''.cjs'', ''.mts'', ''.cts''],
     comment_single = ''//'',
     comment_multi = Some (''/*'', ''*/'')\<rparr>\<close>

definition PYTHON_PATTERN :: InstrumentationPattern where
  \<open>PYTHON_PATTERN = \<lparr>
     log_template = ''print(f"[{marker_id}] {label}: {{expression}}")'',
     start_marker = (\<lambda>ident. ''# [DEBUG-HELPER:'' @ ident @ ''] START''),
     end_marker = (\<lambda>ident. ''# [DEBUG-HELPER:'' @ ident @ ''] END''),
     extensions = [''.py''],
     comment_single = ''#'',
     comment_multi = None\<rparr>\<close>

definition RUST_PATTERN :: InstrumentationPattern where
  \<open>RUST_PATTERN = \<lparr>
     log_template = ''eprintln!("[{marker_id}] {label}: {:?}", {expression});'',
     start_marker = (\<lambda>ident. ''// [DEBUG-HELPER:'' @ ident @ ''] START''),
     end_marker = (\<lambda>ident. ''// [DEBUG-HELPER:'' @ ident @ ''] END''),
     extensions = [''.rs''],
     comment_single = ''//'',
     comment_multi = Some (''/*'', ''*/'')\<rparr>\<close>

text \<open>
  The Go template is written \<open>%+v\\n\<close> in a template literal: the text holds a backslash
  (code unit 92) followed by \<open>n\<close>, not a line break.
\<close>

definition GO_PATTERN :: InstrumentationPattern where
  \<open>GO_PATTERN = \<lparr>
     log_template = ''fmt.Printf("[{marker_id}] {label}: %+v'' @ [CHR 0x5C] @ ''n", {expression})'',
     start_marker = (\<lambda>ident. ''// [DEBUG-HELPER:'' @ ident @ ''] START''),
     end_marker = (\<lambda>ident. ''// [DEBUG-HELPER:'' @ ident @ ''] END''),
     extensions = [''.go''],
     comment_single = ''//'',
     comment_multi = Some (''/*'', ''*/'')\<rparr>\<close>

text \<open>
  \<open>PATTERNS_BY_EXTENSION\<close> is an object literal \<open>{}\<close> filled by the two nested loops at module
  load: every extension of every pattern, in order, a later entry overwriting an earlier one.
  These are its own properties.
\<close>

definition own_entries :: "string \<rightharpoonup> InstrumentationPattern" where
  "own_entries =
     fold (\<lambda>pattern table. fold (\<lambda>ext t. t(ext \<mapsto> pattern)) (extensions pattern) table)
       [JS_TS_PATTERN, PYTHON_PATTERN, RUST_PATTERN, GO_PATTERN] Map.empty"

text \<open>
  A property read \<open>PATTERNS_BY_EXTENSION[ext]\<close> of a plain object also finds the members it
  inherits from \<open>Object.prototype\<close>: functions and, for \<open>__proto__\<close>, the prototype object
  itself. None of them is a pattern and every one of them is truthy, so \<open>|| null\<close> lets it
  through. A read yields a registered pattern, an inherited member (kept by its name), or
  nothing.
\<close>

datatype table_entry = Registered InstrumentationPattern | Inherited string

definition object_prototype_members :: "string list" where
  "object_prototype_members =
     [''constructor'', ''hasOwnProperty'', ''isPrototypeOf'', ''propertyIsEnumerable'',
      ''toLocaleString'', ''toString'', ''valueOf'', ''__proto__'',
      ''__defineGetter__'', ''__defineSetter__'', ''__lookupGetter__'', ''__lookupSetter__'']"

definition PATTERNS_BY_EXTENSION :: "string \<rightharpoonup> table_entry" where
  "PATTERNS_BY_EXTENSION key =
     (case own_entries key of
        Some pattern \<Rightarrow> Some (Registered pattern)
      | None \<Rightarrow> if key \<in> set object_prototype_members then Some (Inherited key) else None)"

text \<open>\<open>filePath.lastIndexOf(".")\<close>: \<open>None\<close> stands for \<open>-1\<close>.\<close>

fun lastIndexOf_dot :: "string \<Rightarrow> nat option" where
  "lastIndexOf_dot [] = None"
| "lastIndexOf_dot (c # cs) =
     (case lastIndexOf_dot cs of
        Some i \<Rightarrow> Some (i + 1)
      | None \<Rightarrow> if c = CHR ''.'' then Some 0 else None)"

text \<open>
  \<open>substring\<close> clamps a negative start to 0, so a path without a dot is looked up whole.
\<close>

definition getPatternForFile :: "string \<Rightarrow> table_entry option" where
  "getPatternForFile filePath =
     (let ext = (case lastIndexOf_dot filePath of None \<Rightarrow> filePath | Some i \<Rightarrow> drop i filePath)
      in PATTERNS_BY_EXTENSION ext)"

section \<open>Rendering a block\<close>

text \<open>
  \<open>Math.random().toString(36).substring(2, 10)\<close>. The base-36 rendering of the random number
  is produced by the JavaScript runtime; it is the parameter \<open>rendering\<close>.
\<close>

definition generateMarkerId :: "string \<Rightarrow> string" where
  "generateMarkerId rendering = drop 2 (take 10 rendering)"

text \<open>
  \<open>String.prototype.replace\<close> with a string pattern: only the first occurrence is replaced,
  and in the replacement text \<open>$$\<close>, \<open>$&\<close>, \<open>$`\<close> and \<open>$'\<close> stand for a dollar sign, the matched
  text, the text before the match and the text after it (there are no capture groups, so
  every other \<open>$\<close> is literal).
\<close>

fun find_first :: "string \<Rightarrow> string \<Rightarrow> (string \<times> string) option" where
  "find_first pat [] = (if pat = [] then Some ([], []) else None)"
| "find_first pat (c # cs) =
     (case strip_prefix pat (c # cs) of
        Some post \<Rightarrow> Some ([], post)
      | None \<Rightarrow>
          (case find_first pat cs of
             Some (pre, post) \<Rightarrow> Some (c # pre, post)
           | None \<Rightarrow> None))"

fun get_substitution :: "string \<Rightarrow> string \<Rightarrow> string \<Rightarrow> string \<Rightarrow> string" where
  "get_substitution matched pre post [] = []"
| "get_substitution matched pre post [c] = [c]"
| "get_substitution matched pre post (c # d # r) =
     (if c = CHR ''$'' \<and> d = CHR ''$'' then CHR ''$'' # get_substitution matched pre post r
      else if c = CHR ''$'' \<and> d = CHR ''&'' then matched @ get_substitution matched pre post r
      else if c = CHR ''$'' \<and> d = CHR 0x60 then pre @ get_substitution matched pre post r
      else if c = CHR ''$'' \<and> d = CHR 0x27 then post @ get_substitution matched pre post r
      else c # get_substitution matched pre post (d # r))"

definition js_replace :: "string \<Rightarrow> string \<Rightarrow> string \<Rightarrow> string" where
  "js_replace s pat replacement =
     (case find_first pat s of
        None \<Rightarrow> s
      | Some (pre, post) \<Rightarrow> pre @ get_substitution pat pre post replacement @ post)"

text \<open>
  The statement line of the block, before indentation. \<open>if (expression)\<close> is false for
  \<open>undefined\<close> (\<open>None\<close>) and for the empty string.
\<close>

definition render_log_line :: "InstrumentationPattern \<Rightarrow> string \<Rightarrow> string \<Rightarrow> string option \<Rightarrow> string" where
  \<open>render_log_line pattern markerId lbl expression =
     (case (if expression = Some [] then None else expression) of
        Some e \<Rightarrow>
          js_replace (js_replace (js_replace (js_replace (log_template pattern)
            ''{marker_id}'' markerId)
            ''{label}'' lbl)
            ''{expression}'' e)
            ''{{expression}}'' (''{'' @ e @ ''}'')
      | None \<Rightarrow>
          js_replace (js_replace (js_replace (js_replace (js_replace (js_replace (js_replace
            (log_template pattern)
            ''{marker_id}'' markerId)
            ''{label}'' lbl)
            '', {expression}'' [])
            '': {expression}'' [])
            '': {{expression}}'' [])
            ('': {:?}", {expression}'') ''"'')
            ('': %+v'' @ [CHR 0x5C] @ ''n", {expression}'') ([CHR 0x5C] @ ''n"''))\<close>

definition buildInstrumentationBlock ::
  "InstrumentationPattern \<Rightarrow> string \<Rightarrow> string \<Rightarrow> string option \<Rightarrow> string \<Rightarrow> string" where
  "buildInstrumentationBlock pattern markerId lbl expression indent =
     join_lines [indent @ start_marker pattern markerId,
                 indent @ render_log_line pattern markerId lbl expression,
                 indent @ end_marker pattern markerId]"


text \<open>
  C3. With the expression omitted, the Rust and Go statements keep their format specifier:
  the replacement of \<open>", {expression}"\<close> runs first and removes the text that the
  later, language-specific replacements look for.
\<close>

theorem checkpoint_keeps_format_specifier:
  \<open>buildInstrumentationBlock RUST_PATTERN ''abc12345'' ''checkpoint'' None [] =
     join_lines [''// [DEBUG-HELPER:abc12345] START'',
                 ''eprintln!("[abc12345] checkpoint: {:?}");'',
                 ''// [DEBUG-HELPER:abc12345] END'']
   \<and> buildInstrumentationBlock GO_PATTERN ''abc12345'' ''checkpoint'' None [] =
     join_lines [''// [DEBUG-HELPER:abc12345] START'',
                 ''fmt.Printf("[abc12345] checkpoint: %+v'' @ [CHR 0x5C] @ ''n")'',
                 ''// [DEBUG-HELPER:abc12345] END'']\<close>
  by code_simp


section \<open>Session store (persistence.ts) and the file system\<close>

text \<open>
  The class \<open>\s\<close> of the regular expressions, on one-byte code units: tab, line feed,
  vertical tab, form feed, carriage return, space and no-break space.
\<close>

definition is_space :: "char \<Rightarrow> bool" where
  "is_space c = (c \<in> set [CHR 0x09, CHR 0x0A, CHR 0x0B, CHR 0x0C, CHR 0x0D, CHR 0x20, CHR 0xA0])"

record InstrumentationMarker =
  m_id :: string
  m_file_path :: string
  m_line_start :: int
  m_line_end :: int
  m_label :: string
  m_expression :: "string option"
  m_created_at :: string

text \<open>
  Of \<open>SessionData\<close> the fields that the instrumentation tools read or write; \<open>logs\<close>,
  \<open>rca_history\<close> and \<open>processes\<close> are created empty and never touched by them.
\<close>

record SessionData =
  s_session_id :: string
  s_project_dir :: string
  s_directory :: string
  s_created_at :: string
  s_markers :: "InstrumentationMarker list"

text \<open>
  The world the tools act on. \<open>files\<close> holds what exists in the file system, by path: a
  regular file with its bytes, or a directory. \<open>sessions\<close> holds the session documents, by
  the path of their \<open>session.json\<close> (a document that is missing or does not parse is
  absent). A session document is named \<open>session.json\<close>; the add tool writes only to paths
  with a registered extension and records only such paths, so the documents and the files
  that the tools instrument are different files.
\<close>

datatype fs_entry = File string | Directory

record world =
  files :: "string \<rightharpoonup> fs_entry"
  sessions :: "string \<rightharpoonup> SessionData"

text \<open>
  What the JavaScript runtime supplies to every call: \<open>data_path\<close> is \<open>getDataPath\<close>, the
  path that \<open>path.join\<close> and \<open>os.tmpdir\<close> compute for a session id (two ids may name one
  path); \<open>utf8_decode\<close> is the decoding of a file's bytes done by \<open>readFile(path, "utf-8")\<close>
  and \<open>utf8_encode\<close> the encoding of a text done by \<open>writeFile\<close>. What it supplies to one
  call is gathered in \<open>env\<close>: the base-36 rendering of \<open>Math.random()\<close>, the clock's ISO
  time and the working directory.
\<close>

record platform =
  data_path :: "string \<Rightarrow> string"
  utf8_decode :: "string \<Rightarrow> string"
  utf8_encode :: "string \<Rightarrow> string"

record env =
  random_rendering :: string
  now_iso :: string
  cwd :: string

definition existsSync :: "world \<Rightarrow> string \<Rightarrow> bool" where
  "existsSync w path = (files w path \<noteq> None)"

text \<open>\<open>readFile\<close> throws on a missing path and on a directory: \<open>None\<close>.\<close>

definition readFile :: "platform \<Rightarrow> world \<Rightarrow> string \<Rightarrow> string option" where
  "readFile pf w path =
     (case files w path of
        Some (File bytes) \<Rightarrow> Some (utf8_decode pf bytes)
      | Some Directory \<Rightarrow> None
      | None \<Rightarrow> None)"

text \<open>\<open>writeFile\<close>, called by the tools only on a path they have just read.\<close>

definition writeFile :: "platform \<Rightarrow> world \<Rightarrow> string \<Rightarrow> string \<Rightarrow> world" where
  "writeFile pf w path content = w\<lparr>files := (files w)(path \<mapsto> File (utf8_encode pf content))\<rparr>"

definition loadSession :: "platform \<Rightarrow> world \<Rightarrow> string \<Rightarrow> SessionData option" where
  "loadSession pf w sessionId = sessions w (data_path pf sessionId)"

text \<open>\<open>saveSession\<close> writes the document to the path of the id held in the document.\<close>

definition saveSession :: "platform \<Rightarrow> world \<Rightarrow> SessionData \<Rightarrow> world" where
  "saveSession pf w d = w\<lparr>sessions := (sessions w)(data_path pf (s_session_id d) \<mapsto> d)\<rparr>"

definition createSession ::
  "platform \<Rightarrow> env \<Rightarrow> world \<Rightarrow> string \<Rightarrow> string \<Rightarrow> SessionData \<times> world" where
  "createSession pf e w sessionId projectDir =
     (let d = \<lparr>s_session_id = sessionId, s_project_dir = projectDir, s_directory = projectDir,
                s_created_at = now_iso e, s_markers = []\<rparr>
      in (d, w\<lparr>sessions := (sessions w)(data_path pf sessionId \<mapsto> d)\<rparr>))"

text \<open>\<open>addMarker\<close> and \<open>removeMarker\<close> throw when the session is absent: \<open>None\<close>.\<close>

definition addMarker :: "platform \<Rightarrow> world \<Rightarrow> string \<Rightarrow> InstrumentationMarker \<Rightarrow> world option" where
  "addMarker pf w sessionId marker =
     (case loadSession pf w sessionId of
        None \<Rightarrow> None
      | Some d \<Rightarrow> Some (saveSession pf w (d\<lparr>s_markers := s_markers d @ [marker]\<rparr>)))"

definition removeMarker :: "platform \<Rightarrow> world \<Rightarrow> string \<Rightarrow> string \<Rightarrow> world option" where
  "removeMarker pf w sessionId markerId =
     (case loadSession pf w sessionId of
        None \<Rightarrow> None
      | Some d \<Rightarrow>
          Some (saveSession pf w (d\<lparr>s_markers := filter (\<lambda>m. m_id m \<noteq> markerId) (s_markers d)\<rparr>)))"

definition getMarkers :: "platform \<Rightarrow> world \<Rightarrow> string \<Rightarrow> InstrumentationMarker list" where
  "getMarkers pf w sessionId =
     (case loadSession pf w sessionId of None \<Rightarrow> [] | Some d \<Rightarrow> s_markers d)"

section \<open>The instrumentation tools\<close>

text \<open>
  Every tool returns a message; the constructors below are its messages, in the order of the
  source: \<open>Error: File not found\<close>, \<open>Error: Unsupported file type\<close>, \<open>Error: Line \<dots> out of
  range\<close> and \<open>Added instrumentation marker\<close> (id, path, first line of the block, block).
  \<open>AddThrown\<close> is an exception escaping the tool: from \<open>readFile\<close>, from
  \<open>buildInstrumentationBlock\<close> (a \<open>TypeError\<close>, when the table entry is an inherited member
  and has no \<open>start_marker\<close>), or from \<open>addMarker\<close>.
\<close>

datatype add_result =
    FileNotFound string
  | UnsupportedFileType
  | LineOutOfRange int nat
  | Added string string int string
  | AddThrown

text \<open>
  The text edit of the add tool, for a line number already checked to be in range: the
  indentation of the target line, the rendered block, and \<open>lines.splice(line, 0, block)\<close>,
  which puts the block (one array element holding the block's lines) after the first
  \<open>line\<close> elements. The result is the block and the text written back to the file.
\<close>

definition add_block ::
  "InstrumentationPattern \<Rightarrow> string \<Rightarrow> int \<Rightarrow> string \<Rightarrow> string \<Rightarrow> string option \<Rightarrow> string \<times> string" where
  "add_block pattern content line markerId lbl expression =
     (let lines = split_lines content;
          targetLine = lines ! nat (line - 1);
          indent = takeWhile is_space targetLine;
          block = buildInstrumentationBlock pattern markerId lbl expression indent;
          lines' = take (nat line) lines @ [block] @ drop (nat line) lines
      in (block, join_lines lines'))"

text \<open>
  The session the add tool works on: the stored one, or a fresh one created for the id.
\<close>

definition session_of_add :: "platform \<Rightarrow> env \<Rightarrow> world \<Rightarrow> string \<Rightarrow> world" where
  "session_of_add pf e w session_id =
     (case loadSession pf w session_id of
        None \<Rightarrow> snd (createSession pf e w session_id (cwd e))
      | Some d \<Rightarrow> w)"

text \<open>\<open>line\<close> is the integer line number of the call.\<close>

definition addInstrumentationTool ::
  "platform \<Rightarrow> env \<Rightarrow> world \<Rightarrow> string \<Rightarrow> string \<Rightarrow> int \<Rightarrow> string \<Rightarrow> string option
   \<Rightarrow> add_result \<times> world" where
  "addInstrumentationTool pf e w session_id file_path line lbl expression =
     (if \<not> existsSync w file_path then (FileNotFound file_path, w)
      else
        (case getPatternForFile file_path of
           None \<Rightarrow> (UnsupportedFileType, w)
         | Some entry \<Rightarrow>
             (let w1 = session_of_add pf e w session_id
              in
                (case readFile pf w1 file_path of
                   None \<Rightarrow> (AddThrown, w1)
                 | Some content \<Rightarrow>
                     (let lines = split_lines content
                      in if line < 1 \<or> line > int (length lines)
                         then (LineOutOfRange line (length lines), w1)
                         else
                           (case entry of
                              Inherited name \<Rightarrow> (AddThrown, w1)
                            | Registered pattern \<Rightarrow>
                                (let markerId = generateMarkerId (random_rendering e);
                                     (block, newContent) =
                                        add_block pattern content line markerId lbl expression;
                                     w2 = writeFile pf w1 file_path newContent;
                                     marker = \<lparr>m_id = markerId, m_file_path = file_path,
                                               m_line_start = line + 1, m_line_end = line + 3,
                                               m_label = lbl, m_expression = expression,
                                               m_created_at = now_iso e\<rparr>
                                 in
                                   (case addMarker pf w2 session_id marker of
                                      None \<Rightarrow> (AddThrown, w2)
                                    | Some w3 \<Rightarrow>
                                        (Added markerId file_path (line + 1) block, w3)))))))))"

text \<open>
  The messages of the remove tool: \<open>Error: Marker \<dots> not found in session\<close>, \<open>Warning: File \<dots>
  no longer exists. Removed marker from session\<close>, \<open>Warning: Marker \<dots> not found in file (may
  have been manually removed). Cleaned up session\<close> and \<open>Removed marker \<dots> from \<dots>\<close>.
  \<open>RemoveThrown\<close> is an exception escaping the tool, from \<open>readFile\<close> or \<open>removeMarker\<close>.
\<close>

datatype remove_result =
    MarkerNotFoundInSession string string
  | FileNoLongerExists string
  | MarkerNotFoundInFile string
  | Removed string string
  | RemoveThrown

text \<open>\<open>removeMarkerFromSession\<close> followed by the message of the branch.\<close>

definition drop_record ::
  "platform \<Rightarrow> world \<Rightarrow> string \<Rightarrow> string \<Rightarrow> remove_result \<Rightarrow> remove_result \<times> world" where
  "drop_record pf w session_id marker_id msg =
     (case removeMarker pf w session_id marker_id of
        None \<Rightarrow> (RemoveThrown, w)
      | Some w' \<Rightarrow> (msg, w'))"

definition removeInstrumentationTool ::
  "platform \<Rightarrow> world \<Rightarrow> string \<Rightarrow> string \<Rightarrow> remove_result \<times> world" where
  "removeInstrumentationTool pf w session_id marker_id =
     (case find (\<lambda>m. m_id m = marker_id) (getMarkers pf w session_id) of
        None \<Rightarrow> (MarkerNotFoundInSession marker_id session_id, w)
      | Some marker \<Rightarrow>
          (if \<not> existsSync w (m_file_path marker)
           then drop_record pf w session_id marker_id (FileNoLongerExists (m_file_path marker))
           else
             (case readFile pf w (m_file_path marker) of
                None \<Rightarrow> (RemoveThrown, w)
              | Some content \<Rightarrow>
                  (let newContent = removeInstrumentationBlock content marker_id
                   in if content = newContent
                      then drop_record pf w session_id marker_id (MarkerNotFoundInFile marker_id)
                      else drop_record pf (writeFile pf w (m_file_path marker) newContent)
                             session_id marker_id (Removed marker_id (m_file_path marker))))))"

text \<open>The outcomes of the remove tool that are error messages.\<close>

fun is_error_outcome :: "remove_result \<Rightarrow> bool" where
  "is_error_outcome (MarkerNotFoundInSession m s) = True"
| "is_error_outcome RemoveThrown = True"
| "is_error_outcome r = False"

section \<open>The marker id\<close>

text \<open>
  C5 (as the code has it). The id is the third to tenth character of the rendering. When
  the characters after the first two are base-36 digits, the id consists of lowercase
  alphanumeric characters only and has 8 of them if the rendering has at least 8 fractional
  digits, and all of them otherwise.
\<close>

theorem generateMarkerId_shape:
  assumes "list_all is_id_char (drop 2 rendering)"
  shows "generateMarkerId rendering = take 8 (drop 2 rendering)
         \<and> list_all is_id_char (generateMarkerId rendering)
         \<and> length (generateMarkerId rendering) = min 8 (length rendering - 2)"
proof -
  have eq: "generateMarkerId rendering = take 8 (drop 2 rendering)"
    by (simp add: generateMarkerId_def drop_take)
  moreover have "list_all is_id_char (take 8 (drop 2 rendering))"
    using assms by (auto simp: list_all_iff dest: in_set_takeD)
  ultimately show ?thesis by simp
qed

theorem generateMarkerId_shape_witness:
  "list_all is_id_char (drop 2 ''0.4fzyo82mvyr'')
   \<and> generateMarkerId ''0.4fzyo82mvyr'' = ''4fzyo82m''
   \<and> length (generateMarkerId ''0.4fzyo82mvyr'') = 8"
proof -
  have h: "list_all is_id_char (drop 2 ''0.4fzyo82mvyr'')"
    by code_simp
  show ?thesis
    using h generateMarkerId_shape [OF h] by simp
qed

text \<open>
  The random number 0.5 is rendered \<open>0.i\<close> in base 36 (and 0 is rendered \<open>0\<close>): the id is
  one character long (or empty), not 8.
\<close>

theorem generateMarkerId_short_counterexample:
  "generateMarkerId ''0.i'' = ''i'' \<and> length (generateMarkerId ''0.i'') \<noteq> 8
   \<and> generateMarkerId ''0'' = []"
  by code_simp

section \<open>Removing twice\<close>

text \<open>
  \<open>saveSession\<close> writes a document to the path of the id held in its \<open>session_id\<close> field.
  Every document that \<open>createSession\<close> and \<open>saveSession\<close> store sits at the path of its own
  id; the property is stated for the one session a call works on.
\<close>

definition session_keyed :: "platform \<Rightarrow> world \<Rightarrow> string \<Rightarrow> bool" where
  "session_keyed pf w sessionId =
     (case sessions w (data_path pf sessionId) of
        None \<Rightarrow> True
      | Some d \<Rightarrow> data_path pf (s_session_id d) = data_path pf sessionId)"

lemma find_filter_none: "find P (filter (\<lambda>m. \<not> P m) xs) = None"
  by (induction xs) auto

lemma drop_record_no_marker:
  assumes "drop_record pf w s m msg = (r, w')" and "session_keyed pf w s"
  shows "find (\<lambda>k. m_id k = m) (getMarkers pf w' s) = None"
proof (cases "loadSession pf w s")
  case None
  with assms have "w' = w"
    by (simp add: drop_record_def removeMarker_def)
  with None show ?thesis
    by (simp add: getMarkers_def)
next
  case (Some d)
  with assms have w': "w' = saveSession pf w (d\<lparr>s_markers := filter (\<lambda>k. m_id k \<noteq> m) (s_markers d)\<rparr>)"
    by (auto simp: drop_record_def removeMarker_def)
  from Some assms(2) have "data_path pf (s_session_id d) = data_path pf s"
    by (simp add: session_keyed_def loadSession_def)
  then have "getMarkers pf w' s = filter (\<lambda>k. m_id k \<noteq> m) (s_markers d)"
    unfolding w' loadSession_def getMarkers_def saveSession_def by simp
  then show ?thesis
    using find_filter_none [of "\<lambda>k. m_id k = m"] by simp
qed

lemma getMarkers_writeFile [simp]:
  "getMarkers pf (writeFile pf w path content) s = getMarkers pf w s"
  by (simp add: getMarkers_def loadSession_def writeFile_def)

lemma session_keyed_writeFile [simp]:
  "session_keyed pf (writeFile pf w path content) s = session_keyed pf w s"
  by (simp add: session_keyed_def writeFile_def)

lemma remove_tool_no_marker:
  assumes "removeInstrumentationTool pf w s m = (r, w')" and "session_keyed pf w s"
    and "r \<noteq> RemoveThrown"
  shows "find (\<lambda>k. m_id k = m) (getMarkers pf w' s) = None"
proof (cases "find (\<lambda>k. m_id k = m) (getMarkers pf w s)")
  case None
  with assms(1) show ?thesis
    by (simp add: removeInstrumentationTool_def)
next
  case (Some marker)
  with assms(1,3) obtain w0 msg where "drop_record pf w0 s m msg = (r, w')"
    and "w0 = w \<or> (\<exists>path content. w0 = writeFile pf w path content)"
    by (auto simp: removeInstrumentationTool_def Let_def split: option.splits if_splits)
  then show ?thesis
    using assms(2) drop_record_no_marker [of pf w0 s m msg r w'] by auto
qed

text \<open>
  C2 (as the code has it). In a session whose document sits at the path of its own id, after
  a first \<open>remove\<close> that returned a message (a successful remove in particular), a second
  \<open>remove\<close> of the same marker id finds no record: it returns the error message \<open>Marker not
  found in session\<close> and changes nothing.
\<close>

theorem second_remove_reports_marker_not_found:
  assumes "session_keyed pf w s"
    and "removeInstrumentationTool pf w s m = (r, w')"
    and "r \<noteq> RemoveThrown"
  shows "removeInstrumentationTool pf w' s m = (MarkerNotFoundInSession m s, w')"
proof -
  have "find (\<lambda>k. m_id k = m) (getMarkers pf w' s) = None"
    using assms(2,1,3) by (rule remove_tool_no_marker)
  then show ?thesis
    by (simp add: removeInstrumentationTool_def)
qed

text \<open>
  A sample run. The runtime of the sample puts the document of a session id under the
  directory of that name and decodes and encodes ASCII text as it is. The world is a file
  of one line and no session; the random number is rendered \<open>0.4fzyo82mvyr\<close>. The file is
  instrumented after line 1 (\<open>c2_added\<close>), then the marker is removed (\<open>c2_removed\<close>).
\<close>

definition sample_platform :: platform where
  "sample_platform =
     \<lparr>data_path = (\<lambda>sessionId. ''/tmp/opencode-debug-helper/'' @ sessionId @ ''/session.json''),
      utf8_decode = (\<lambda>bytes. bytes),
      utf8_encode = (\<lambda>content. content)\<rparr>"

definition sample_env :: env where
  "sample_env = \<lparr>random_rendering = ''0.4fzyo82mvyr'', now_iso = ''2026-01-01T00:00:00.000Z'',
            cwd = ''/work''\<rparr>"

definition sample_world :: world where
  "sample_world = \<lparr>files = [''/work/a.js'' \<mapsto> File ''let x = 1;''], sessions = Map.empty\<rparr>"

definition c2_added :: world where
  "c2_added =
     snd (addInstrumentationTool sample_platform sample_env sample_world ''s1'' ''/work/a.js'' 1
            ''checkpoint'' None)"

definition c2_removed :: world where
  "c2_removed = snd (removeInstrumentationTool sample_platform c2_added ''s1'' ''4fzyo82m'')"

theorem second_remove_reports_marker_not_found_witness:
  "session_keyed sample_platform c2_added ''s1''
   \<and> fst (removeInstrumentationTool sample_platform c2_added ''s1'' ''4fzyo82m'') \<noteq> RemoveThrown
   \<and> removeInstrumentationTool sample_platform c2_removed ''s1'' ''4fzyo82m'' =
       (MarkerNotFoundInSession ''4fzyo82m'' ''s1'', c2_removed)"
proof -
  have h: "session_keyed sample_platform c2_added ''s1''"
    by code_simp
  have r: "fst (removeInstrumentationTool sample_platform c2_added ''s1'' ''4fzyo82m'') \<noteq> RemoveThrown"
    by code_simp
  have first: "removeInstrumentationTool sample_platform c2_added ''s1'' ''4fzyo82m'' =
      (fst (removeInstrumentationTool sample_platform c2_added ''s1'' ''4fzyo82m''), c2_removed)"
    by (simp add: c2_removed_def)
  show ?thesis
    using h r second_remove_reports_marker_not_found [OF h first r]
    by (intro conjI)
qed

text \<open>
  The claim as stated fails: the first \<open>remove\<close> succeeds with \<open>Removed\<close> and restores the
  file, and the second call answers with the error message.
\<close>

theorem second_remove_counterexample:
  "fst (removeInstrumentationTool sample_platform c2_added ''s1'' ''4fzyo82m'')
     = Removed ''4fzyo82m'' ''/work/a.js''
   \<and> files c2_removed ''/work/a.js'' = Some (File ''let x = 1;'')
   \<and> fst (removeInstrumentationTool sample_platform c2_removed ''s1'' ''4fzyo82m'')
     = MarkerNotFoundInSession ''4fzyo82m'' ''s1''
   \<and> is_error_outcome (fst (removeInstrumentationTool sample_platform c2_removed ''s1'' ''4fzyo82m''))"
  by code_simp

section \<open>Failures of the add tool\<close>

lemma createSession_files [simp]: "files (snd (createSession pf e w s d)) = files w"
  by (simp add: createSession_def Let_def)

lemma session_of_add_files [simp]: "files (session_of_add pf e w s) = files w"
  by (cases "loadSession pf w s") (simp_all add: session_of_add_def)

lemma readFile_session_of_add [simp]:
  "readFile pf (session_of_add pf e w s) path = readFile pf w path"
  by (simp add: readFile_def)

text \<open>
  The three checks of the add tool, in the order of the source: a path that does not exist
  gives \<open>FileNotFound\<close>; an existing path for which the table read yields nothing gives
  \<open>UnsupportedFileType\<close>; a regular file for which the read yields something, with a line
  number outside \<open>[1, lineCount]\<close>, gives \<open>LineOutOfRange\<close>. In each case no file is
  modified.
\<close>

lemma add_guards_leave_files_unmodified:
  "(files w p = None \<longrightarrow>
      fst (addInstrumentationTool pf e w s p line lbl ex) = FileNotFound p
      \<and> files (snd (addInstrumentationTool pf e w s p line lbl ex)) = files w)
   \<and> (files w p \<noteq> None \<and> getPatternForFile p = None \<longrightarrow>
      fst (addInstrumentationTool pf e w s p line lbl ex) = UnsupportedFileType
      \<and> files (snd (addInstrumentationTool pf e w s p line lbl ex)) = files w)
   \<and> (files w p = Some (File bytes) \<and> getPatternForFile p \<noteq> None
        \<and> (line < 1 \<or> line > int (length (split_lines (utf8_decode pf bytes)))) \<longrightarrow>
      fst (addInstrumentationTool pf e w s p line lbl ex)
        = LineOutOfRange line (length (split_lines (utf8_decode pf bytes)))
      \<and> files (snd (addInstrumentationTool pf e w s p line lbl ex)) = files w)"
  by (auto simp: addInstrumentationTool_def existsSync_def readFile_def Let_def split: option.splits)

lemma extensions_simps:
  "extensions JS_TS_PATTERN = [''.js'', ''.jsx'', ''.ts'', ''.tsx'', ''.mjs'', ''.cjs'', ''.mts'', ''.cts'']"
  "extensions PYTHON_PATTERN = [''.py'']"
  "extensions RUST_PATTERN = [''.rs'']"
  "extensions GO_PATTERN = [''.go'']"
  by (simp_all add: JS_TS_PATTERN_def PYTHON_PATTERN_def RUST_PATTERN_def GO_PATTERN_def)

text \<open>
  A file whose table read yields an inherited member passes the guard for unsupported file
  types; with a line number in range the tool then throws, and no file is modified.
\<close>

lemma add_on_inherited_member:
  assumes "files w p = Some (File bytes)"
    and "getPatternForFile p = Some (Inherited name)"
    and "1 \<le> line" and "line \<le> int (length (split_lines (utf8_decode pf bytes)))"
  shows "addInstrumentationTool pf e w s p line lbl ex = (AddThrown, session_of_add pf e w s)"
  using assms by (simp add: addInstrumentationTool_def existsSync_def readFile_def Let_def)

definition c6_world :: world where
  "c6_world =
     \<lparr>files = [''constructor'' \<mapsto> File ''let x = 1;'', ''/work/A.java'' \<mapsto> File ''class A {}''],
      sessions = Map.empty\<rparr>"

text \<open>
  C6. For the existing file \<open>constructor\<close> (a relative path without a dot) no pattern matches,
  yet the table read finds the member that the object inherits under that name: the tool
  does not answer \<open>UnsupportedFileType\<close> but throws. The file is left as it was. For the
  file \<open>A.java\<close> the tool answers \<open>UnsupportedFileType\<close>.
\<close>

theorem add_passes_guard_on_inherited_name:
  "own_entries ''constructor'' = None
   \<and> getPatternForFile ''constructor'' = Some (Inherited ''constructor'')
   \<and> fst (addInstrumentationTool sample_platform sample_env c6_world ''s1'' ''constructor'' 1 ''l'' None)
       = AddThrown
   \<and> files (snd (addInstrumentationTool sample_platform sample_env c6_world ''s1'' ''constructor'' 1 ''l'' None))
       = files c6_world
   \<and> fst (addInstrumentationTool sample_platform sample_env c6_world ''s1'' ''/work/A.java'' 1 ''l'' None)
       = UnsupportedFileType"
proof -
  have own: "own_entries ''constructor'' = None"
    by (simp add: own_entries_def extensions_simps)
  then have entry: "getPatternForFile ''constructor'' = Some (Inherited ''constructor'')"
    by (simp add: getPatternForFile_def PATTERNS_BY_EXTENSION_def object_prototype_members_def)
  have stored: "files c6_world ''constructor'' = Some (File ''let x = 1;'')"
    by (simp add: c6_world_def)
  have in_range: "(1::int) \<le> 1" "1 \<le> int (length (split_lines (utf8_decode sample_platform ''let x = 1;'')))"
    by (simp_all add: sample_platform_def Let_def)
  have thrown: "addInstrumentationTool sample_platform sample_env c6_world ''s1'' ''constructor'' 1 ''l'' None
      = (AddThrown, session_of_add sample_platform sample_env c6_world ''s1'')"
    using stored entry in_range by (rule add_on_inherited_member)
  have java: "files c6_world ''/work/A.java'' \<noteq> None \<and> getPatternForFile ''/work/A.java'' = None"
    by (simp add: c6_world_def getPatternForFile_def PATTERNS_BY_EXTENSION_def own_entries_def
          extensions_simps object_prototype_members_def)
  have unsupported: "fst (addInstrumentationTool sample_platform sample_env c6_world ''s1'' ''/work/A.java'' 1 ''l'' None)
      = UnsupportedFileType"
    using java add_guards_leave_files_unmodified [of c6_world "''/work/A.java''" sample_platform sample_env "''s1''" 1 "''l''" None]
    by simp
  show ?thesis
    using own entry unsupported by (simp add: thrown)
qed

section \<open>Log classification (log-patterns.ts)\<close>

datatype match_type = Error | Warning | Info | Debug | DebugHelper

record LogMatch =
  lm_type :: match_type
  lm_line :: nat
  lm_content :: string
  lm_marker_id :: "string option"
  lm_details :: "string option"

text \<open>
  The four tests of \<open>extractErrorContext\<close>, each anchored at the start of the line:
  \<open>/^\s+at\s+/\<close>, \<open>/^\s+File\s+"/\<close>, \<open>/^\s+\d+:\s+/\<close> and \<open>/^\s+/\<close>. \<open>after_spaces\<close> is the rest
  of a line after its leading run of at least one white-space character.
\<close>

definition after_spaces :: "string \<Rightarrow> string option" where
  "after_spaces line =
     (if takeWhile is_space line = [] then None else Some (dropWhile is_space line))"

definition is_digit :: "char \<Rightarrow> bool" where
  "is_digit c = (c \<in> set ''0123456789'')"

definition js_stack_frame :: "string \<Rightarrow> bool" where
  "js_stack_frame line =
     (case after_spaces line of
        None \<Rightarrow> False
      | Some r \<Rightarrow>
          (case strip_prefix ''at'' r of
             None \<Rightarrow> False
           | Some r' \<Rightarrow> takeWhile is_space r' \<noteq> []))"

definition python_frame :: "string \<Rightarrow> bool" where
  \<open>python_frame line =
     (case after_spaces line of
        None \<Rightarrow> False
      | Some r \<Rightarrow>
          (case strip_prefix ''File'' r of
             None \<Rightarrow> False
           | Some r' \<Rightarrow> takeWhile is_space r' \<noteq> [] \<and> take 1 (dropWhile is_space r') = ''"''))\<close>

definition rust_frame :: "string \<Rightarrow> bool" where
  "rust_frame line =
     (case after_spaces line of
        None \<Rightarrow> False
      | Some r \<Rightarrow>
          takeWhile is_digit r \<noteq> []
          \<and> take 1 (dropWhile is_digit r) = '':''
          \<and> takeWhile is_space (drop 1 (dropWhile is_digit r)) \<noteq> [])"

definition indented :: "string \<Rightarrow> bool" where
  "indented line = (after_spaces line \<noteq> None)"

definition is_continuation :: "string \<Rightarrow> bool" where
  "is_continuation line =
     (js_stack_frame line \<or> python_frame line \<or> rust_frame line \<or> indented line)"

text \<open>
  The loop of \<open>extractErrorContext\<close>: \<open>i\<close> runs from \<open>errorIndex + 1\<close> while it is below
  \<open>bound = Math.min(lines.length, errorIndex + maxContext)\<close>, and stops at the first line
  that is no continuation.
\<close>

function context_loop :: "string list \<Rightarrow> nat \<Rightarrow> nat \<Rightarrow> string list \<Rightarrow> string list" where
  "context_loop lines bound i contextLines =
     (if i < bound then
        (if is_continuation (lines ! i)
         then context_loop lines bound (i + 1) (contextLines @ [lines ! i])
         else contextLines)
      else contextLines)"
  by pat_completeness auto
termination
  by (relation "measure (\<lambda>(lines, bound, i, contextLines). bound - i)") auto

declare context_loop.simps [simp del]

definition maxContext :: nat where
  "maxContext = 10"

definition error_context_lines :: "string list \<Rightarrow> nat \<Rightarrow> string list" where
  "error_context_lines lines errorIndex =
     context_loop lines (min (length lines) (errorIndex + maxContext)) (errorIndex + 1) []"

definition extractErrorContext :: "string list \<Rightarrow> nat \<Rightarrow> string" where
  "extractErrorContext lines errorIndex = join_lines (error_context_lines lines errorIndex)"

text \<open>
  \<open>parseLogContent\<close>. The marker test uses \<open>DEBUG_HELPER_PATTERN\<close>, the same regular
  expression as \<open>extractMarkerId\<close>. The tables \<open>ERROR_PATTERNS\<close> and \<open>WARNING_PATTERNS\<close> enter
  as the predicates \<open>is_error\<close> and \<open>is_warning\<close> (some pattern of the table matches the
  line); what is proved below holds for every pair of predicates.
\<close>

fun parse_loop ::
  "(string \<Rightarrow> bool) \<Rightarrow> (string \<Rightarrow> bool) \<Rightarrow> string list \<Rightarrow> nat \<Rightarrow> string list \<Rightarrow> LogMatch list" where
  "parse_loop is_error is_warning lines i [] = []"
| "parse_loop is_error is_warning lines i (line # rest) =
     (case extractMarkerId line of
        Some ident \<Rightarrow>
          \<lparr>lm_type = DebugHelper, lm_line = i + 1, lm_content = line,
           lm_marker_id = Some ident, lm_details = None\<rparr>
          # parse_loop is_error is_warning lines (i + 1) rest
      | None \<Rightarrow>
          (if is_error line then
             \<lparr>lm_type = Error, lm_line = i + 1, lm_content = line,
              lm_marker_id = None, lm_details = Some (extractErrorContext lines i)\<rparr>
             # parse_loop is_error is_warning lines (i + 1) rest
           else if is_warning line then
             \<lparr>lm_type = Warning, lm_line = i + 1, lm_content = line,
              lm_marker_id = None, lm_details = None\<rparr>
             # parse_loop is_error is_warning lines (i + 1) rest
           else parse_loop is_error is_warning lines (i + 1) rest))"

definition parseLogContent :: "(string \<Rightarrow> bool) \<Rightarrow> (string \<Rightarrow> bool) \<Rightarrow> string \<Rightarrow> LogMatch list" where
  "parseLogContent is_error is_warning content =
     (let lines = split_lines content in parse_loop is_error is_warning lines 0 lines)"

definition filterDebugHelperOutput :: "LogMatch list \<Rightarrow> LogMatch list" where
  "filterDebugHelperOutput matches = filter (\<lambda>m. lm_type m = DebugHelper) matches"

definition filterErrors :: "LogMatch list \<Rightarrow> LogMatch list" where
  "filterErrors matches = filter (\<lambda>m. lm_type m = Error) matches"

section \<open>Correlation of a log with the session's markers\<close>

text \<open>
  The loop over \<open>debugMatches\<close>: \<open>hitMarkers\<close> is the set of ids seen, \<open>markerOrder\<close> the ids in
  the order they were first seen, each with the line of its first match.
\<close>

fun hit_loop :: "LogMatch list \<Rightarrow> string set \<times> (string \<times> nat) list \<Rightarrow> string set \<times> (string \<times> nat) list" where
  "hit_loop [] st = st"
| "hit_loop (m # ms) (hitMarkers, markerOrder) =
     (case lm_marker_id m of
        None \<Rightarrow> hit_loop ms (hitMarkers, markerOrder)
      | Some ident \<Rightarrow>
          (if ident = [] then hit_loop ms (hitMarkers, markerOrder)
           else hit_loop ms
                  (insert ident hitMarkers,
                   if ident \<in> hitMarkers then markerOrder else markerOrder @ [(ident, lm_line m)])))"

text \<open>
  What the report is built from: the rows of the status table (marker id and whether it is
  \<open>HIT\<close>), the ids of the \<open>Execution Order\<close> list, the error matches, and the markers listed as
  not hit.
\<close>

record correlation =
  marker_status :: "(string \<times> bool) list"
  execution_order :: "string list"
  errors_detected :: "LogMatch list"
  missed_markers :: "string list"

datatype correlate_result =
    LogFileNotFound string
  | ProvideContentOrPath
  | NoMarkersInSession string
  | Report correlation
  | CorrelateThrown

definition correlate ::
  "(string \<Rightarrow> bool) \<Rightarrow> (string \<Rightarrow> bool) \<Rightarrow> InstrumentationMarker list \<Rightarrow> string \<Rightarrow> correlation" where
  "correlate is_error is_warning markers logContent =
     (let allMatches = parseLogContent is_error is_warning logContent;
          debugMatches = filterDebugHelperOutput allMatches;
          errorMatches = filterErrors allMatches;
          (hitMarkers, markerOrder) = hit_loop debugMatches ({}, [])
      in \<lparr>marker_status = map (\<lambda>m. (m_id m, m_id m \<in> hitMarkers)) markers,
          execution_order = map fst markerOrder,
          errors_detected = errorMatches,
          missed_markers = map m_id (filter (\<lambda>m. m_id m \<notin> hitMarkers) markers)\<rparr>)"

text \<open>
  The tool: the log text comes from \<open>file_path\<close> when it is given and not empty, else from
  \<open>content\<close> when it is given and not empty. \<open>CorrelateThrown\<close> is the exception of
  \<open>readFile\<close>.
\<close>

definition given :: "string option \<Rightarrow> string option" where
  "given arg = (if arg = Some [] then None else arg)"

definition correlateLogsWithMarkersTool ::
  "(string \<Rightarrow> bool) \<Rightarrow> (string \<Rightarrow> bool) \<Rightarrow> platform \<Rightarrow> world \<Rightarrow> string
   \<Rightarrow> string option \<Rightarrow> string option \<Rightarrow> correlate_result" where
  "correlateLogsWithMarkersTool is_error is_warning pf w session_id rawContent file_path =
     (let source =
            (case given file_path of
               Some path \<Rightarrow>
                 (if \<not> existsSync w path then Inl (LogFileNotFound path)
                  else
                    (case readFile pf w path of
                       None \<Rightarrow> Inl CorrelateThrown
                     | Some logText \<Rightarrow> Inr logText))
             | None \<Rightarrow>
                 (case given rawContent of
                    Some logText \<Rightarrow> Inr logText
                  | None \<Rightarrow> Inl ProvideContentOrPath))
      in case source of
           Inl err \<Rightarrow> err
         | Inr logContent \<Rightarrow>
             (if getMarkers pf w session_id = [] then NoMarkersInSession session_id
              else Report (correlate is_error is_warning (getMarkers pf w session_id) logContent)))"

section \<open>The context of an error line\<close>

lemma context_loop_length:
  "length (context_loop lines bound i acc) \<le> length acc + (bound - i)"
proof (induction lines bound i acc rule: context_loop.induct)
  case (1 lines bound i contextLines)
  show ?case
  proof (cases "i < bound \<and> is_continuation (lines ! i)")
    case True
    then have "context_loop lines bound i contextLines =
        context_loop lines bound (i + 1) (contextLines @ [lines ! i])"
      by (subst context_loop.simps) simp
    moreover have "length (context_loop lines bound (i + 1) (contextLines @ [lines ! i]))
        \<le> length (contextLines @ [lines ! i]) + (bound - (i + 1))"
      using True by (intro 1) simp_all
    ultimately show ?thesis using True by simp arith
  next
    case False
    then have "context_loop lines bound i contextLines = contextLines"
      by (subst context_loop.simps) auto
    then show ?thesis by simp
  qed
qed

lemma error_context_bound: "length (error_context_lines lines errorIndex) \<le> 9"
proof -
  have "length (error_context_lines lines errorIndex)
      \<le> length ([] :: string list) + (min (length lines) (errorIndex + maxContext) - (errorIndex + 1))"
    unfolding error_context_lines_def by (rule context_loop_length)
  then show ?thesis
    by (simp add: maxContext_def)
qed

definition c8_frame :: string where
  "c8_frame = ''    at handler (/app/index.js:10:5)''"

definition c8_lines :: "string list" where
  "c8_lines = ''TypeError: boom'' # replicate 10 c8_frame"

lemma c8_frame_continuation: "is_continuation c8_frame"
  by code_simp

text \<open>
  C8. The loop stops before index \<open>errorIndex + maxContext\<close>, so it reads the 9 lines after
  the error line, never the tenth: no context is longer than 9 lines, and an error line
  followed by 10 stack-frame lines gets the first 9 of them.
\<close>

theorem error_context_stops_at_nine:
  "length (error_context_lines lines errorIndex) \<le> 9
   \<and> list_all is_continuation (replicate 10 c8_frame)
   \<and> error_context_lines c8_lines 0 = replicate 9 c8_frame
   \<and> extractErrorContext c8_lines 0 = join_lines (replicate 9 c8_frame)"
proof -
  have 1: "length (error_context_lines lines errorIndex) \<le> 9"
    by (rule error_context_bound)
  have 2: "list_all is_continuation (replicate 10 c8_frame)"
    by (simp add: c8_frame_continuation list_all_iff)
  have 3: "error_context_lines c8_lines 0 = replicate 9 c8_frame"
    by (simp add: error_context_lines_def c8_lines_def maxContext_def context_loop.simps
          c8_frame_continuation eval_nat_numeral)
  have 4: "extractErrorContext c8_lines 0 = join_lines (replicate 9 c8_frame)"
    unfolding extractErrorContext_def 3 by (rule refl)
  from 1 2 3 4 show ?thesis
    by (intro conjI)
qed

section \<open>Hit markers and their order\<close>

text \<open>The ids of the marker-tag lines of a text, in the order of the lines.\<close>

definition tag_ids :: "string \<Rightarrow> string list" where
  "tag_ids logContent = List.map_filter extractMarkerId (split_lines logContent)"

text \<open>The elements of a list in the order they are first seen, skipping those of \<open>seen\<close>.\<close>

fun first_seen :: "string set \<Rightarrow> string list \<Rightarrow> string list" where
  "first_seen seen [] = []"
| "first_seen seen (t # ts) =
     (if t \<in> seen then first_seen seen ts else t # first_seen (insert t seen) ts)"

lemma hit_loop_parse:
  "fst (hit_loop (filterDebugHelperOutput (parse_loop is_error is_warning lines i rest)) (H, ord))
     = H \<union> set (List.map_filter extractMarkerId rest)
   \<and> map fst (snd (hit_loop (filterDebugHelperOutput (parse_loop is_error is_warning lines i rest)) (H, ord)))
     = map fst ord @ first_seen H (List.map_filter extractMarkerId rest)"
proof (induction rest arbitrary: i H ord)
  case Nil
  show ?case
    by (simp add: filterDebugHelperOutput_def List.map_filter_simps)
next
  case (Cons line rest)
  show ?case
  proof (cases "extractMarkerId line")
    case None
    then show ?thesis
      using Cons.IH [of "i + 1" H ord]
      by (simp add: filterDebugHelperOutput_def List.map_filter_simps)
  next
    case (Some ident)
    then have ne: "ident \<noteq> []"
      by (simp add: extractMarkerId_id)
    show ?thesis
    proof (cases "ident \<in> H")
      case True
      then have "insert ident H = H" by auto
      with Some ne True show ?thesis
        using Cons.IH [of "i + 1" H ord]
        by (auto simp: filterDebugHelperOutput_def List.map_filter_simps)
    next
      case False
      with Some ne show ?thesis
        using Cons.IH [of "i + 1" "insert ident H" "ord @ [(ident, i + 1)]"]
        by (simp add: filterDebugHelperOutput_def List.map_filter_simps)
    qed
  qed
qed

lemma first_seen_all_seen: "set ts \<subseteq> seen \<Longrightarrow> first_seen seen ts = []"
  by (induction ts) auto

lemma first_seen_one_new:
  "set ts \<subseteq> insert t seen \<Longrightarrow> t \<in> set ts \<Longrightarrow> t \<notin> seen \<Longrightarrow> first_seen seen ts = [t]"
proof (induction ts)
  case Nil
  then show ?case by simp
next
  case (Cons a ts)
  show ?case
  proof (cases "a = t")
    case True
    with Cons.prems show ?thesis
      by (simp add: first_seen_all_seen)
  next
    case False
    with Cons.prems have "a \<in> seen" and "t \<in> set ts" and "set ts \<subseteq> insert t seen"
      by auto
    with Cons show ?thesis by simp
  qed
qed


lemma correlate_fields:
  "marker_status (correlate is_error is_warning markers logContent)
     = map (\<lambda>m. (m_id m, m_id m \<in> set (tag_ids logContent))) markers
   \<and> execution_order (correlate is_error is_warning markers logContent)
     = first_seen {} (tag_ids logContent)
   \<and> missed_markers (correlate is_error is_warning markers logContent)
     = map m_id (filter (\<lambda>m. m_id m \<notin> set (tag_ids logContent)) markers)"
proof -
  let ?r = "hit_loop (filterDebugHelperOutput (parseLogContent is_error is_warning logContent)) ({}, [])"
  have "fst ?r = set (tag_ids logContent)" and "map fst (snd ?r) = first_seen {} (tag_ids logContent)"
    using hit_loop_parse [of is_error is_warning "split_lines logContent" 0 "split_lines logContent" "{}" "[]"]
    by (simp_all add: parseLogContent_def tag_ids_def Let_def)
  then show ?thesis
    by (simp add: correlate_def Let_def split_beta)
qed


text \<open>
  C7. The ids of the session's markers are \<open>m1\<close>, \<open>m2\<close> and \<open>m3\<close>, all different, stored in any
  order; the tag lines of the log mention \<open>m1\<close> and \<open>m3\<close> and no other id, \<open>m1\<close> first. The
  report has one row for each marker of the session, marked hit exactly for the ids \<open>m1\<close>
  and \<open>m3\<close>; it lists the markers of id \<open>m2\<close>, and no others, as not hit; and it gives the
  execution order \<open>[m1, m3]\<close>, the order in which the tags are first seen in the log.
\<close>

theorem correlate_reports_hits_and_order:
  assumes "set (map m_id (getMarkers pf w session_id)) = {m1, m2, m3}"
    and "m2 \<noteq> m1" and "m2 \<noteq> m3" and "m1 \<noteq> m3"
    and "set (tag_ids logContent) = {m1, m3}"
    and "hd (tag_ids logContent) = m1"
  shows "\<exists>c. correlateLogsWithMarkersTool is_error is_warning pf w session_id (Some logContent) None
               = Report c
           \<and> marker_status c
               = map (\<lambda>m. (m_id m, m_id m = m1 \<or> m_id m = m3)) (getMarkers pf w session_id)
           \<and> execution_order c = [m1, m3]
           \<and> missed_markers c = filter (\<lambda>i. i = m2) (map m_id (getMarkers pf w session_id))
           \<and> m2 \<in> set (missed_markers c)"
proof -
  let ?ms = "getMarkers pf w session_id"
  from assms(5) obtain ts where tags: "tag_ids logContent = m1 # ts"
    using assms(6) by (cases "tag_ids logContent") auto
  with assms(4,5) have "set ts \<subseteq> insert m3 {m1}" and "m3 \<in> set ts" and "m3 \<notin> {m1}"
    by auto
  then have "first_seen {m1} ts = [m3]"
    by (rule first_seen_one_new)
  then have order: "first_seen {} (tag_ids logContent) = [m1, m3]"
    by (simp add: tags)
  from tags have nonempty: "logContent \<noteq> []"
    by (auto simp: tag_ids_def List.map_filter_simps)
  from assms(1) have some: "?ms \<noteq> []"
    by auto
  let ?c = "correlate is_error is_warning ?ms logContent"
  have tool: "correlateLogsWithMarkersTool is_error is_warning pf w session_id (Some logContent) None
      = Report ?c"
    using nonempty some by (simp add: correlateLogsWithMarkersTool_def given_def)
  have status: "marker_status ?c = map (\<lambda>m. (m_id m, m_id m = m1 \<or> m_id m = m3)) ?ms"
    using correlate_fields [of is_error is_warning ?ms logContent] assms(5) by simp
  have ids: "\<And>m. m \<in> set ?ms \<Longrightarrow> m_id m = m1 \<or> m_id m = m2 \<or> m_id m = m3"
    using assms(1) by auto
  have "filter (\<lambda>m. m_id m \<notin> set (tag_ids logContent)) ?ms = filter (\<lambda>m. m_id m = m2) ?ms"
    using ids assms(2,3,5) by (intro filter_cong) auto
  then have missed: "missed_markers ?c = filter (\<lambda>i. i = m2) (map m_id ?ms)"
    using correlate_fields [of is_error is_warning ?ms logContent]
    by (simp add: filter_map comp_def)
  have "m2 \<in> set (map m_id ?ms)"
    using assms(1) by simp
  then have listed: "m2 \<in> set (missed_markers ?c)"
    unfolding missed by simp
  have "execution_order ?c = [m1, m3]"
    using correlate_fields [of is_error is_warning ?ms logContent] order by simp
  with tool status missed listed show ?thesis
    by blast
qed

text \<open>
  A session that stores its markers in the order \<open>ccc333\<close>, \<open>bbb222\<close>, \<open>aaa111\<close> and a log in
  which \<open>aaa111\<close> is seen before \<open>ccc333\<close>.
\<close>

definition c7_marker :: "string \<Rightarrow> int \<Rightarrow> InstrumentationMarker" where
  "c7_marker ident n =
     \<lparr>m_id = ident, m_file_path = ''/work/a.js'', m_line_start = n, m_line_end = n + 2,
      m_label = ''checkpoint'', m_expression = None, m_created_at = ''2026-01-01T00:00:00.000Z''\<rparr>"

definition c7_world :: world where
  "c7_world =
     \<lparr>files = Map.empty,
      sessions = [data_path sample_platform ''s1'' \<mapsto>
        \<lparr>s_session_id = ''s1'', s_project_dir = ''/work'', s_directory = ''/work'',
         s_created_at = ''2026-01-01T00:00:00.000Z'',
         s_markers = [c7_marker ''ccc333'' 12, c7_marker ''bbb222'' 7, c7_marker ''aaa111'' 2]\<rparr>]\<rparr>"

definition c7_log :: string where
  "c7_log = ''starting\<newline>[DEBUG-HELPER:aaa111] before fetch: 1\<newline>working\<newline>[DEBUG-HELPER:ccc333] after fetch: 2\<newline>[DEBUG-HELPER:aaa111] before fetch: 3''"

theorem correlate_reports_hits_and_order_witness:
  "map m_id (getMarkers sample_platform c7_world ''s1'') = [''ccc333'', ''bbb222'', ''aaa111'']
   \<and> tag_ids c7_log = [''aaa111'', ''ccc333'', ''aaa111'']
   \<and> (\<exists>c. correlateLogsWithMarkersTool (\<lambda>l. False) (\<lambda>l. False) sample_platform c7_world ''s1''
               (Some c7_log) None = Report c
          \<and> marker_status c = [(''ccc333'', True), (''bbb222'', False), (''aaa111'', True)]
          \<and> execution_order c = [''aaa111'', ''ccc333'']
          \<and> missed_markers c = [''bbb222''])"
proof -
  have ms: "map m_id (getMarkers sample_platform c7_world ''s1'') = [''ccc333'', ''bbb222'', ''aaa111'']"
    by code_simp
  have t: "tag_ids c7_log = [''aaa111'', ''ccc333'', ''aaa111'']"
    by code_simp
  have 1: "set (map m_id (getMarkers sample_platform c7_world ''s1'')) = {''aaa111'', ''bbb222'', ''ccc333''}"
    unfolding ms by auto
  have 2: "''bbb222'' \<noteq> ''aaa111''" and 3: "''bbb222'' \<noteq> ''ccc333''" and 4: "''aaa111'' \<noteq> ''ccc333''"
    by simp_all
  have 5: "set (tag_ids c7_log) = {''aaa111'', ''ccc333''}"
    unfolding t by auto
  have 6: "hd (tag_ids c7_log) = ''aaa111''"
    unfolding t by simp
  obtain c where c: "correlateLogsWithMarkersTool (\<lambda>l. False) (\<lambda>l. False) sample_platform c7_world ''s1''
        (Some c7_log) None = Report c"
    and status: "marker_status c = map (\<lambda>m. (m_id m, m_id m = ''aaa111'' \<or> m_id m = ''ccc333''))
        (getMarkers sample_platform c7_world ''s1'')"
    and order: "execution_order c = [''aaa111'', ''ccc333'']"
    and missed: "missed_markers c = filter (\<lambda>i. i = ''bbb222'') (map m_id (getMarkers sample_platform c7_world ''s1''))"
    using correlate_reports_hits_and_order [OF 1 2 3 4 5 6, of "\<lambda>l. False" "\<lambda>l. False"]
    by blast
  have rows: "map (\<lambda>m. (m_id m, m_id m = ''aaa111'' \<or> m_id m = ''ccc333''))
        (getMarkers sample_platform c7_world ''s1'')
      = [(''ccc333'', True), (''bbb222'', False), (''aaa111'', True)]"
    by code_simp
  have "marker_status c = [(''ccc333'', True), (''bbb222'', False), (''aaa111'', True)]"
    unfolding status rows ..
  moreover have "missed_markers c = [''bbb222'']"
    unfolding missed ms by simp
  ultimately show ?thesis
    using ms t c order by blast
qed

section \<open>Recognising the marker lines of a rendered block\<close>

lemma match_tag_here_needs_bracket: "CHR ''['' \<noteq> c \<Longrightarrow> match_tag_here (c # cs) = None"
  by (simp add: match_tag_here_def)

lemma tag_then_no_bracket: "CHR ''['' \<notin> set s \<Longrightarrow> tag_then kw s = False"
  by (induction s) (simp_all add: match_tag_here_needs_bracket)

lemma extractMarkerId_no_bracket: "CHR ''['' \<notin> set s \<Longrightarrow> extractMarkerId s = None"
  by (induction s) (simp_all add: match_tag_here_needs_bracket)

lemma tag_then_skip: "CHR ''['' \<notin> set p \<Longrightarrow> tag_then kw (p @ s) = tag_then kw s"
  by (induction p) (simp_all add: match_tag_here_needs_bracket)

lemma extractMarkerId_skip: "CHR ''['' \<notin> set p \<Longrightarrow> extractMarkerId (p @ s) = extractMarkerId s"
  by (induction p) (simp_all add: match_tag_here_needs_bracket)

lemma is_id_char_simps [simp]:
  "\<not> is_id_char (CHR '']'')" "\<not> is_id_char (CHR ''['')" "\<not> is_id_char newline"
  by (simp_all add: is_id_char_def newline_def)

lemma takeWhile_id: "list_all is_id_char x \<Longrightarrow> takeWhile is_id_char (x @ CHR '']'' # r) = x"
  by (induction x) simp_all

lemma dropWhile_id: "list_all is_id_char x \<Longrightarrow> dropWhile is_id_char (x @ CHR '']'' # r) = CHR '']'' # r"
  by (induction x) simp_all

lemma match_tag_here_tag:
  "x \<noteq> [] \<Longrightarrow> list_all is_id_char x \<Longrightarrow>
   match_tag_here (''[DEBUG-HELPER:'' @ x @ CHR '']'' # r) = Some (x, r)"
  by (simp add: match_tag_here_def takeWhile_id dropWhile_id)

lemma id_no_bracket: "list_all is_id_char x \<Longrightarrow> CHR ''['' \<notin> set x \<and> newline \<notin> set x"
  by (induction x) auto

lemma extract_tag_line:
  assumes "CHR ''['' \<notin> set p" and "x \<noteq> []" and "list_all is_id_char x"
  shows "extractMarkerId (p @ ''[DEBUG-HELPER:'' @ x @ CHR '']'' # r) = Some x"
proof -
  have "extractMarkerId (''[DEBUG-HELPER:'' @ x @ CHR '']'' # r) = Some x"
    using match_tag_here_tag [OF assms(2,3), of r] by simp
  then show ?thesis
    using extractMarkerId_skip [OF assms(1)] by simp
qed

lemma tag_then_tag_line:
  assumes "CHR ''['' \<notin> set p" and "x \<noteq> []" and "list_all is_id_char x" and "CHR ''['' \<notin> set r"
  shows "tag_then kw (p @ ''[DEBUG-HELPER:'' @ x @ CHR '']'' # r) = (strip_prefix kw r \<noteq> None)"
proof -
  have "CHR ''['' \<notin> set (''DEBUG-HELPER:'' @ x @ CHR '']'' # r)"
    using assms(3,4) id_no_bracket [of x] by simp
  then have tail: "tag_then kw (''DEBUG-HELPER:'' @ x @ CHR '']'' # r) = False"
    by (rule tag_then_no_bracket)
  have "tag_then kw (''[DEBUG-HELPER:'' @ x @ CHR '']'' # r) = (strip_prefix kw r \<noteq> None)"
    using match_tag_here_tag [OF assms(2,3), of r] tail by simp
  then show ?thesis
    using tag_then_skip [OF assms(1)] by simp
qed

text \<open>The four registered patterns and the shape of their marker lines.\<close>

definition registered :: "InstrumentationPattern \<Rightarrow> bool" where
  "registered pattern =
     (pattern = JS_TS_PATTERN \<or> pattern = PYTHON_PATTERN \<or> pattern = RUST_PATTERN \<or> pattern = GO_PATTERN)"

lemma registered_markers:
  assumes "registered pattern"
  shows "\<exists>cp. CHR ''['' \<notin> set cp \<and> newline \<notin> set cp
              \<and> (\<forall>x. start_marker pattern x = cp @ ''[DEBUG-HELPER:'' @ x @ ''] START'')
              \<and> (\<forall>x. end_marker pattern x = cp @ ''[DEBUG-HELPER:'' @ x @ ''] END'')"
proof -
  have "(\<forall>x. start_marker pattern x = ''// '' @ ''[DEBUG-HELPER:'' @ x @ ''] START'')
        \<and> (\<forall>x. end_marker pattern x = ''// '' @ ''[DEBUG-HELPER:'' @ x @ ''] END'')
      \<or> (\<forall>x. start_marker pattern x = ''# '' @ ''[DEBUG-HELPER:'' @ x @ ''] START'')
        \<and> (\<forall>x. end_marker pattern x = ''# '' @ ''[DEBUG-HELPER:'' @ x @ ''] END'')"
    using assms
    by (auto simp: registered_def JS_TS_PATTERN_def PYTHON_PATTERN_def RUST_PATTERN_def GO_PATTERN_def)
  then show ?thesis
  proof
    assume h: "(\<forall>x. start_marker pattern x = ''// '' @ ''[DEBUG-HELPER:'' @ x @ ''] START'')
        \<and> (\<forall>x. end_marker pattern x = ''// '' @ ''[DEBUG-HELPER:'' @ x @ ''] END'')"
    show ?thesis
      by (rule exI [of _ "''// ''"]) (use h in \<open>simp add: newline_def\<close>)
  next
    assume h: "(\<forall>x. start_marker pattern x = ''# '' @ ''[DEBUG-HELPER:'' @ x @ ''] START'')
        \<and> (\<forall>x. end_marker pattern x = ''# '' @ ''[DEBUG-HELPER:'' @ x @ ''] END'')"
    show ?thesis
      by (rule exI [of _ "''# ''"]) (use h in \<open>simp add: newline_def\<close>)
  qed
qed

lemma space_no_bracket: "list_all is_space indent \<Longrightarrow> CHR ''['' \<notin> set indent"
  by (induction indent) (auto simp: is_space_def)

text \<open>
  The first and the last line of a block rendered for a registered pattern, a well-formed id
  and an indentation of white space without a line break.
\<close>

lemma block_marker_lines:
  assumes "registered pattern" and "x \<noteq> []" and "list_all is_id_char x"
    and "list_all is_space indent" and "newline \<notin> set indent"
  shows "start_of x (indent @ start_marker pattern x)"
    and "\<not> isEndMarker (indent @ start_marker pattern x)"
    and "end_of x (indent @ end_marker pattern x)"
    and "\<not> isStartMarker (indent @ end_marker pattern x)"
    and "newline \<notin> set (indent @ start_marker pattern x)"
    and "newline \<notin> set (indent @ end_marker pattern x)"
proof -
  obtain cp where cp: "CHR ''['' \<notin> set cp" "newline \<notin> set cp"
    and sm: "\<And>y. start_marker pattern y = cp @ ''[DEBUG-HELPER:'' @ y @ ''] START''"
    and em: "\<And>y. end_marker pattern y = cp @ ''[DEBUG-HELPER:'' @ y @ ''] END''"
    using registered_markers [OF assms(1)] by blast
  have p: "CHR ''['' \<notin> set (indent @ cp)"
    using cp(1) space_no_bracket [OF assms(4)] by simp
  have s: "indent @ start_marker pattern x = (indent @ cp) @ ''[DEBUG-HELPER:'' @ x @ CHR '']'' # '' START''"
    by (simp add: sm)
  have e: "indent @ end_marker pattern x = (indent @ cp) @ ''[DEBUG-HELPER:'' @ x @ CHR '']'' # '' END''"
    by (simp add: em)
  have ids: "extractMarkerId (indent @ start_marker pattern x) = Some x"
    unfolding s using p assms(2,3) by (rule extract_tag_line)
  have ide: "extractMarkerId (indent @ end_marker pattern x) = Some x"
    unfolding e using p assms(2,3) by (rule extract_tag_line)
  have ss: "isStartMarker (indent @ start_marker pattern x)"
    unfolding s isStartMarker_def using tag_then_tag_line [OF p assms(2,3), of "'' START''" "'' START''"]
    by simp
  have se: "\<not> isEndMarker (indent @ start_marker pattern x)"
    unfolding s isEndMarker_def using tag_then_tag_line [OF p assms(2,3), of "'' START''" "'' END''"]
    by simp
  have ee: "isEndMarker (indent @ end_marker pattern x)"
    unfolding e isEndMarker_def using tag_then_tag_line [OF p assms(2,3), of "'' END''" "'' END''"]
    by simp
  have es: "\<not> isStartMarker (indent @ end_marker pattern x)"
    unfolding e isStartMarker_def using tag_then_tag_line [OF p assms(2,3), of "'' END''" "'' START''"]
    by simp
  show "start_of x (indent @ start_marker pattern x)"
    using ss ids by (simp add: start_of_def)
  show "\<not> isEndMarker (indent @ start_marker pattern x)"
    by (rule se)
  show "end_of x (indent @ end_marker pattern x)"
    using ee ide by (simp add: end_of_def)
  show "\<not> isStartMarker (indent @ end_marker pattern x)"
    by (rule es)
  show "newline \<notin> set (indent @ start_marker pattern x)"
    using assms(5) cp(2) id_no_bracket [OF assms(3)] by (simp add: sm newline_def)
  show "newline \<notin> set (indent @ end_marker pattern x)"
    using assms(5) cp(2) id_no_bracket [OF assms(3)] by (simp add: em newline_def)
qed


section \<open>The text written by the add tool\<close>

lemma split_lines_newline_free: "list_all (\<lambda>l. newline \<notin> set l) (split_lines s)"
proof (induction s)
  case Nil
  show ?case by simp
next
  case (Cons c cs)
  obtain l ls where r: "split_lines cs = l # ls"
    using split_lines_nonempty [of cs] by (cases "split_lines cs") auto
  with Cons show ?case by (simp add: Let_def)
qed

lemma split_join_concat:
  "ls \<noteq> [] \<Longrightarrow> split_lines (join_lines ls) = concat (map split_lines ls)"
proof (induction ls rule: join_lines.induct)
  case 1
  then show ?case by simp
next
  case (2 l)
  show ?case by simp
next
  case (3 l m ls)
  then show ?case by (simp add: split_lines_append)
qed

lemma concat_split_free:
  "list_all (\<lambda>l. newline \<notin> set l) ls \<Longrightarrow> concat (map split_lines ls) = ls"
  by (induction ls) (simp_all add: split_lines_single)

text \<open>The indentation the add tool copies from its target line.\<close>

definition target_indent :: "string \<Rightarrow> int \<Rightarrow> string" where
  "target_indent content line = takeWhile is_space (split_lines content ! nat (line - 1))"

lemma target_indent_space: "list_all is_space (target_indent content line)"
  by (simp add: target_indent_def list_all_iff) (meson set_takeWhileD)

lemma target_indent_newline_free:
  assumes "1 \<le> line" and "line \<le> int (length (split_lines content))"
  shows "newline \<notin> set (target_indent content line)"
proof -
  have "nat (line - 1) < length (split_lines content)"
    using assms by linarith
  then have "split_lines content ! nat (line - 1) \<in> set (split_lines content)"
    by (rule nth_mem)
  then have "newline \<notin> set (split_lines content ! nat (line - 1))"
    using split_lines_newline_free [of content] by (simp add: list_all_iff)
  then show ?thesis
    unfolding target_indent_def by (meson set_takeWhileD)
qed

lemma add_block_fst:
  "fst (add_block pattern content line x lbl ex) =
     join_lines [target_indent content line @ start_marker pattern x,
                 target_indent content line @ render_log_line pattern x lbl ex,
                 target_indent content line @ end_marker pattern x]"
  by (simp add: add_block_def Let_def buildInstrumentationBlock_def target_indent_def)

lemma add_block_lines:
  assumes "registered pattern" and "x \<noteq> []" and "list_all is_id_char x"
    and "1 \<le> line" and "line \<le> int (length (split_lines content))"
  shows "split_lines (snd (add_block pattern content line x lbl ex)) =
           take (nat line) (split_lines content)
           @ (target_indent content line @ start_marker pattern x)
           # split_lines (target_indent content line @ render_log_line pattern x lbl ex)
           @ (target_indent content line @ end_marker pattern x)
           # drop (nat line) (split_lines content)"
proof -
  let ?L = "split_lines content"
  let ?ind = "target_indent content line"
  let ?s = "?ind @ start_marker pattern x"
  let ?m = "?ind @ render_log_line pattern x lbl ex"
  let ?e = "?ind @ end_marker pattern x"
  have ind: "list_all is_space ?ind" "newline \<notin> set ?ind"
    using target_indent_space target_indent_newline_free [OF assms(4,5)] by simp_all
  have s: "split_lines ?s = [?s]" and e: "split_lines ?e = [?e]"
    using block_marker_lines(5,6) [OF assms(1-3) ind] by (simp_all add: split_lines_single)
  have free: "list_all (\<lambda>l. newline \<notin> set l) (take (nat line) ?L)"
    "list_all (\<lambda>l. newline \<notin> set l) (drop (nat line) ?L)"
    using split_lines_newline_free [of content]
    by (auto simp: list_all_iff dest: in_set_takeD in_set_dropD)
  have "snd (add_block pattern content line x lbl ex) =
      join_lines (take (nat line) ?L @ [join_lines [?s, ?m, ?e]] @ drop (nat line) ?L)"
    by (simp add: add_block_def Let_def buildInstrumentationBlock_def target_indent_def)
  then have "split_lines (snd (add_block pattern content line x lbl ex)) =
      concat (map split_lines (take (nat line) ?L @ [join_lines [?s, ?m, ?e]] @ drop (nat line) ?L))"
    by (simp add: split_join_concat)
  also have "\<dots> = take (nat line) ?L @ split_lines (join_lines [?s, ?m, ?e]) @ drop (nat line) ?L"
    using free by (simp add: concat_split_free)
  also have "split_lines (join_lines [?s, ?m, ?e]) = ?s # split_lines ?m @ [?e]"
  proof -
    have "split_lines (join_lines [?s, ?m, ?e]) = concat (map split_lines [?s, ?m, ?e])"
      by (rule split_join_concat) simp
    then show ?thesis
      using s e by simp
  qed
  finally show ?thesis by simp
qed

section \<open>Removing a block that was just added\<close>

lemma remove_loop_skip_inside:
  "list_all (\<lambda>l. \<not> end_of x l) ms \<Longrightarrow> remove_loop x True (ms @ rest) = remove_loop x True rest"
  by (induction ms) (auto simp: end_of_def Let_def)

lemma remove_loop_end_line:
  "end_of x e \<Longrightarrow> \<not> isStartMarker e \<Longrightarrow> remove_loop x b (e # rest) = remove_loop x False rest"
  by (simp add: end_of_def Let_def)

lemma remove_loop_last_and_end:
  assumes "end_of x e" and "\<not> isStartMarker e"
  shows "remove_loop x True (l # e # rest) = remove_loop x False rest"
proof -
  have "remove_loop x True (l # e # rest) = remove_loop x True (e # rest)
      \<or> remove_loop x True (l # e # rest) = remove_loop x False (e # rest)"
    by (simp add: Let_def)
  then show ?thesis
    using remove_loop_end_line [OF assms] by auto
qed

lemma remove_loop_block:
  assumes "list_all (\<lambda>l. \<not> start_of x l \<and> \<not> end_of x l) xs"
    and "start_of x s"
    and "list_all (\<lambda>l. \<not> end_of x l) (butlast ms)"
    and "end_of x e" and "\<not> isStartMarker e"
  shows "remove_loop x False (xs @ s # ms @ e # rest) = xs @ remove_loop x False rest"
proof -
  have inside: "remove_loop x True (ms @ e # rest) = remove_loop x False rest"
  proof (cases "ms = []")
    case True
    then show ?thesis
      using remove_loop_end_line [OF assms(4,5)] by simp
  next
    case False
    then obtain bs l where ms: "ms = bs @ [l]"
      by (metis append_butlast_last_id)
    with assms(3) have "list_all (\<lambda>l. \<not> end_of x l) bs"
      by simp
    then have "remove_loop x True (bs @ (l # e # rest)) = remove_loop x True (l # e # rest)"
      by (rule remove_loop_skip_inside)
    then show ?thesis
      using remove_loop_last_and_end [OF assms(4,5), of l rest] by (simp add: ms)
  qed
  have "remove_loop x False (xs @ s # ms @ e # rest) = xs @ remove_loop x False (s # ms @ e # rest)"
    using assms(1) by (rule remove_loop_outside)
  also have "remove_loop x False (s # ms @ e # rest) = remove_loop x True (ms @ e # rest)"
    using assms(2) by (simp add: start_of_def Let_def)
  finally show ?thesis
    using inside by simp
qed

lemma remove_loop_fresh:
  "list_all (\<lambda>l. \<not> start_of x l \<and> \<not> end_of x l) ys \<Longrightarrow> remove_loop x False ys = ys"
  using remove_loop_outside [of x ys "[]"] by simp

text \<open>
  The text edit of \<open>add\<close> followed by \<open>removeInstrumentationBlock\<close> gives back the text, when
  the id is new to the text and no line of the statement before its last line is an
  end-marker line of the id.
\<close>

lemma remove_added_block:
  assumes "registered pattern" and "x \<noteq> []" and "list_all is_id_char x"
    and "1 \<le> line" and "line \<le> int (length (split_lines content))"
    and "list_all (\<lambda>l. \<not> start_of x l \<and> \<not> end_of x l) (split_lines content)"
    and "list_all (\<lambda>l. \<not> end_of x l)
           (butlast (split_lines (target_indent content line @ render_log_line pattern x lbl ex)))"
  shows "removeInstrumentationBlock (snd (add_block pattern content line x lbl ex)) x = content"
proof -
  let ?L = "split_lines content"
  let ?ind = "target_indent content line"
  have ind: "list_all is_space ?ind" "newline \<notin> set ?ind"
    using target_indent_space target_indent_newline_free [OF assms(4,5)] by simp_all
  have fresh: "list_all (\<lambda>l. \<not> start_of x l \<and> \<not> end_of x l) (take (nat line) ?L)"
    "list_all (\<lambda>l. \<not> start_of x l \<and> \<not> end_of x l) (drop (nat line) ?L)"
    using assms(6) by (auto simp: list_all_iff dest: in_set_takeD in_set_dropD)
  have "remove_loop x False (split_lines (snd (add_block pattern content line x lbl ex)))
      = take (nat line) ?L @ remove_loop x False (drop (nat line) ?L)"
    unfolding add_block_lines [OF assms(1-5)]
    using fresh(1) block_marker_lines(1) [OF assms(1-3) ind] assms(7)
      block_marker_lines(3,4) [OF assms(1-3) ind]
    by (rule remove_loop_block)
  also have "\<dots> = ?L"
    using remove_loop_fresh [OF fresh(2)] by simp
  finally show ?thesis
    by (simp add: removeInstrumentationBlock_def join_split_lines)
qed


section \<open>Add followed by remove\<close>

lemma own_entries_registered: "own_entries key = Some pattern \<Longrightarrow> registered pattern"
  by (auto simp: own_entries_def extensions_simps registered_def split: if_splits)

lemma getPatternForFile_registered:
  "getPatternForFile p = Some (Registered pattern) \<Longrightarrow> registered pattern"
  by (auto simp: getPatternForFile_def Let_def PATTERNS_BY_EXTENSION_def
        dest: own_entries_registered split: option.splits if_splits)

lemma find_append_fresh:
  "list_all (\<lambda>m. \<not> P m) xs \<Longrightarrow> P y \<Longrightarrow> find P (xs @ [y]) = Some y"
  by (induction xs) simp_all

lemma session_for_add:
  assumes "session_keyed pf w sid"
  shows "\<exists>d. sessions (session_of_add pf e w sid) (data_path pf sid) = Some d
              \<and> data_path pf (s_session_id d) = data_path pf sid
              \<and> s_markers d = getMarkers pf w sid"
proof (cases "loadSession pf w sid")
  case None
  then show ?thesis
    by (simp add: session_of_add_def createSession_def Let_def getMarkers_def)
next
  case (Some d)
  then show ?thesis
    using assms by (simp add: session_of_add_def getMarkers_def session_keyed_def loadSession_def)
qed

lemma add_tool_success:
  assumes "files w p = Some (File bytes)"
    and "getPatternForFile p = Some (Registered pattern)"
    and "content = utf8_decode pf bytes"
    and "1 \<le> line" and "line \<le> int (length (split_lines content))"
    and "session_keyed pf w sid"
  shows "\<exists>w1 d marker.
           addInstrumentationTool pf e w sid p line lbl ex =
             (Added (generateMarkerId (random_rendering e)) p (line + 1)
                (fst (add_block pattern content line (generateMarkerId (random_rendering e)) lbl ex)), w1)
           \<and> files w1 = (files w)(p \<mapsto> File (utf8_encode pf
                (snd (add_block pattern content line (generateMarkerId (random_rendering e)) lbl ex))))
           \<and> sessions w1 (data_path pf sid) = Some d
           \<and> s_markers d = getMarkers pf w sid @ [marker]
           \<and> m_id marker = generateMarkerId (random_rendering e)
           \<and> m_file_path marker = p"
proof -
  let ?x = "generateMarkerId (random_rendering e)"
  let ?w0 = "session_of_add pf e w sid"
  let ?marker = "\<lparr>m_id = ?x, m_file_path = p, m_line_start = line + 1, m_line_end = line + 3,
                  m_label = lbl, m_expression = ex, m_created_at = now_iso e\<rparr>"
  let ?nc = "snd (add_block pattern content line ?x lbl ex)"
  let ?w2 = "writeFile pf ?w0 p ?nc"
  obtain d0 where d0: "sessions ?w0 (data_path pf sid) = Some d0"
    "data_path pf (s_session_id d0) = data_path pf sid"
    "s_markers d0 = getMarkers pf w sid"
    using session_for_add [OF assms(6), of e] by blast
  let ?d1 = "d0\<lparr>s_markers := s_markers d0 @ [?marker]\<rparr>"
  let ?w3 = "saveSession pf ?w2 ?d1"
  have am: "addMarker pf ?w2 sid ?marker = Some ?w3"
    using d0(1) by (simp add: addMarker_def loadSession_def writeFile_def)
  have rd: "readFile pf w p = Some content"
    using assms(1,3) by (simp add: readFile_def)
  have tool: "addInstrumentationTool pf e w sid p line lbl ex =
      (Added ?x p (line + 1) (fst (add_block pattern content line ?x lbl ex)), ?w3)"
    unfolding addInstrumentationTool_def
    using assms(1,2,4,5) rd am
    by (simp add: existsSync_def Let_def split_beta)
  have "files ?w3 = (files w)(p \<mapsto> File (utf8_encode pf ?nc))"
    by (simp add: saveSession_def writeFile_def)
  moreover have "sessions ?w3 (data_path pf sid) = Some ?d1"
    using d0(2) by (simp add: saveSession_def)
  moreover have "s_markers ?d1 = getMarkers pf w sid @ [?marker]"
    using d0(3) by simp
  ultimately show ?thesis
    using tool by (intro exI [of _ ?w3] exI [of _ ?d1] exI [of _ ?marker]) simp
qed

text \<open>
  C1 (as the code has it). \<open>add\<close> followed by \<open>remove\<close> of the returned id succeeds and leaves
  every file with its bytes from before the \<open>add\<close>, provided that:
  \<^item> the path is a regular file whose extension is registered, and the line number is in
    \<open>[1, lineCount]\<close> of the decoded text;
  \<^item> the bytes of the file are what encoding its decoded text gives (valid UTF-8), and the text
    that \<open>add\<close> writes is what decoding its encoding gives (label and expression are
    well-formed);
  \<^item> the generated id is a non-empty run of \<open>[a-z0-9]\<close>;
  \<^item> no line of the file is already a start- or end-marker line of that id;
  \<^item> no line of the rendered statement before its last is an end-marker line of that id (so
    any label and expression without a line break will do);
  \<^item> the document of the session, if there is one, sits at the path of its own id, and the
    session holds no marker with the generated id yet.
\<close>

theorem add_then_remove_restores_file:
  assumes "files w p = Some (File bytes)"
    and "getPatternForFile p = Some (Registered pattern)"
    and "content = utf8_decode pf bytes"
    and "1 \<le> line" and "line \<le> int (length (split_lines content))"
    and "utf8_encode pf content = bytes"
    and "utf8_decode pf (utf8_encode pf (snd (add_block pattern content line x lbl ex)))
           = snd (add_block pattern content line x lbl ex)"
    and "x = generateMarkerId (random_rendering e)"
    and "x \<noteq> []" and "list_all is_id_char x"
    and "list_all (\<lambda>l. \<not> start_of x l \<and> \<not> end_of x l) (split_lines content)"
    and "list_all (\<lambda>l. \<not> end_of x l)
           (butlast (split_lines (target_indent content line @ render_log_line pattern x lbl ex)))"
    and "session_keyed pf w sid"
    and "list_all (\<lambda>m. m_id m \<noteq> x) (getMarkers pf w sid)"
  shows "\<exists>block w1 w2.
           addInstrumentationTool pf e w sid p line lbl ex = (Added x p (line + 1) block, w1)
           \<and> removeInstrumentationTool pf w1 sid x = (Removed x p, w2)
           \<and> files w2 = files w"
proof -
  let ?nc = "snd (add_block pattern content line x lbl ex)"
  have reg: "registered pattern"
    using assms(2) by (rule getPatternForFile_registered)
  obtain w1 d marker where
    tool: "addInstrumentationTool pf e w sid p line lbl ex =
             (Added x p (line + 1) (fst (add_block pattern content line x lbl ex)), w1)"
    and f1: "files w1 = (files w)(p \<mapsto> File (utf8_encode pf ?nc))"
    and s1: "sessions w1 (data_path pf sid) = Some d"
    and ms: "s_markers d = getMarkers pf w sid @ [marker]"
    and mk: "m_id marker = x" "m_file_path marker = p"
    using add_tool_success [OF assms(1-5,13), of e lbl ex] unfolding assms(8) [symmetric] by blast
  have found: "find (\<lambda>m. m_id m = x) (getMarkers pf w1 sid) = Some marker"
    using find_append_fresh [of "\<lambda>m. m_id m = x" "getMarkers pf w sid" marker] assms(14) mk(1) s1 ms
    by (simp add: getMarkers_def loadSession_def)
  have there: "existsSync w1 p"
    by (simp add: existsSync_def f1)
  have rd: "readFile pf w1 p = Some ?nc"
    using assms(7) by (simp add: readFile_def f1)
  have restored: "removeInstrumentationBlock ?nc x = content"
    using reg assms(9,10,4,5,11,12) by (rule remove_added_block)
  have "length (split_lines ?nc) > length (split_lines content)"
    using assms(4,5) by (simp add: add_block_lines [OF reg assms(9,10,4,5)])
  then have differ: "?nc \<noteq> content"
    by auto
  let ?w' = "writeFile pf w1 p content"
  let ?d' = "d\<lparr>s_markers := filter (\<lambda>m. m_id m \<noteq> x) (s_markers d)\<rparr>"
  have "removeMarker pf ?w' sid x = Some (saveSession pf ?w' ?d')"
    using s1 by (simp add: removeMarker_def loadSession_def writeFile_def)
  then have dr: "drop_record pf ?w' sid x (Removed x p) = (Removed x p, saveSession pf ?w' ?d')"
    by (simp add: drop_record_def)
  have rm: "removeInstrumentationTool pf w1 sid x = (Removed x p, saveSession pf ?w' ?d')"
    unfolding removeInstrumentationTool_def
    using found mk(2) there rd restored differ dr by (simp add: Let_def)
  have "files (saveSession pf ?w' ?d') = files w"
    using f1 assms(1,6) by (auto simp: saveSession_def writeFile_def)
  with tool rm show ?thesis
    by blast
qed

theorem add_then_remove_restores_file_witness:
  "files sample_world ''/work/a.js'' = Some (File ''let x = 1;'')
   \<and> generateMarkerId (random_rendering sample_env) = ''4fzyo82m''
   \<and> (\<exists>block w1 w2.
         addInstrumentationTool sample_platform sample_env sample_world ''s1'' ''/work/a.js'' 1
             ''checkpoint'' None
           = (Added ''4fzyo82m'' ''/work/a.js'' 2 block, w1)
         \<and> removeInstrumentationTool sample_platform w1 ''s1'' ''4fzyo82m''
           = (Removed ''4fzyo82m'' ''/work/a.js'', w2)
         \<and> files w2 = files sample_world)"
proof -
  have 1: "files sample_world ''/work/a.js'' = Some (File ''let x = 1;'')"
    by (simp add: sample_world_def)
  have 2: "getPatternForFile ''/work/a.js'' = Some (Registered JS_TS_PATTERN)"
    by (simp add: getPatternForFile_def PATTERNS_BY_EXTENSION_def own_entries_def extensions_simps)
  have 3: "''let x = 1;'' = utf8_decode sample_platform ''let x = 1;''"
    by (simp add: sample_platform_def)
  have 4: "(1::int) \<le> 1" and 5: "1 \<le> int (length (split_lines ''let x = 1;''))"
    by (simp_all add: Let_def)
  have 6: "utf8_encode sample_platform ''let x = 1;'' = ''let x = 1;''"
    by (simp add: sample_platform_def)
  have 7: "utf8_decode sample_platform (utf8_encode sample_platform
        (snd (add_block JS_TS_PATTERN ''let x = 1;'' 1 ''4fzyo82m'' ''checkpoint'' None)))
      = snd (add_block JS_TS_PATTERN ''let x = 1;'' 1 ''4fzyo82m'' ''checkpoint'' None)"
    by (simp add: sample_platform_def)
  have 8: "''4fzyo82m'' = generateMarkerId (random_rendering sample_env)"
    by code_simp
  have 9: "''4fzyo82m'' \<noteq> []" and 10: "list_all is_id_char ''4fzyo82m''"
    by code_simp+
  have 11: "list_all (\<lambda>l. \<not> start_of ''4fzyo82m'' l \<and> \<not> end_of ''4fzyo82m'' l) (split_lines ''let x = 1;'')"
    by code_simp
  have 12: "list_all (\<lambda>l. \<not> end_of ''4fzyo82m'' l)
      (butlast (split_lines (target_indent ''let x = 1;'' 1 @ render_log_line JS_TS_PATTERN ''4fzyo82m'' ''checkpoint'' None)))"
    by code_simp
  have 13: "session_keyed sample_platform sample_world ''s1''"
    by code_simp
  have 14: "list_all (\<lambda>m. m_id m \<noteq> ''4fzyo82m'') (getMarkers sample_platform sample_world ''s1'')"
    by code_simp
  show ?thesis
    using 1 8 [symmetric] add_then_remove_restores_file [OF 1 2 3 4 5 6 7 8 9 10 11 12 13 14]
    by simp
qed

text \<open>
  The claim as stated fails on a text that already carries the id about to be generated:
  the stale end-marker line is deleted together with the block, so the text after
  \<open>remove\<close> is not the text before \<open>add\<close>. It fails as well when the random number is 0,
  rendered \<open>0\<close>: the id is empty, the marker lines are not recognised, and \<open>remove\<close> leaves
  the block in the file.
\<close>

definition c1_stale_world :: world where
  "c1_stale_world =
     \<lparr>files = [''/work/a.js'' \<mapsto> File ''// [DEBUG-HELPER:4fzyo82m] END\<newline>let x = 1;''],
      sessions = Map.empty\<rparr>"

definition c1_stale_added :: world where
  "c1_stale_added =
     snd (addInstrumentationTool sample_platform sample_env c1_stale_world ''s1'' ''/work/a.js'' 2
            ''checkpoint'' None)"

definition c1_zero_env :: env where
  "c1_zero_env = \<lparr>random_rendering = ''0'', now_iso = ''2026-01-01T00:00:00.000Z'', cwd = ''/work''\<rparr>"

definition c1_zero_added :: world where
  "c1_zero_added =
     snd (addInstrumentationTool sample_platform c1_zero_env sample_world ''s1'' ''/work/a.js'' 1
            ''checkpoint'' None)"

theorem add_then_remove_counterexample:
  \<open>fst (addInstrumentationTool sample_platform sample_env c1_stale_world ''s1'' ''/work/a.js'' 2
          ''checkpoint'' None)
     = Added ''4fzyo82m'' ''/work/a.js'' 3
         (join_lines [''// [DEBUG-HELPER:4fzyo82m] START'',
                      ''console.log("[4fzyo82m] checkpoint:");'',
                      ''// [DEBUG-HELPER:4fzyo82m] END''])
   \<and> fst (removeInstrumentationTool sample_platform c1_stale_added ''s1'' ''4fzyo82m'')
     = Removed ''4fzyo82m'' ''/work/a.js''
   \<and> files (snd (removeInstrumentationTool sample_platform c1_stale_added ''s1'' ''4fzyo82m'')) ''/work/a.js''
       = Some (File ''let x = 1;'')
   \<and> files c1_stale_world ''/work/a.js'' \<noteq> Some (File ''let x = 1;'')
   \<and> fst (addInstrumentationTool sample_platform c1_zero_env sample_world ''s1'' ''/work/a.js'' 1
            ''checkpoint'' None)
     = Added [] ''/work/a.js'' 2
         (join_lines [''// [DEBUG-HELPER:] START'',
                      ''console.log("[] checkpoint:");'',
                      ''// [DEBUG-HELPER:] END''])
   \<and> fst (removeInstrumentationTool sample_platform c1_zero_added ''s1'' []) = MarkerNotFoundInFile []
   \<and> files (snd (removeInstrumentationTool sample_platform c1_zero_added ''s1'' [])) ''/work/a.js''
       \<noteq> files sample_world ''/work/a.js''\<close>
  by code_simp

section \<open>Two blocks in one file\<close>

lemma join_lines_append:
  "xs \<noteq> [] \<Longrightarrow> ys \<noteq> [] \<Longrightarrow> join_lines (xs @ ys) = join_lines xs @ newline # join_lines ys"
proof (induction xs rule: join_lines.induct)
  case 1
  then show ?case by simp
next
  case (2 l)
  then show ?case by (simp add: join_lines_Cons)
next
  case (3 l m ls)
  then show ?case by simp
qed

lemma join_block_lines:
  "join_lines (s # split_lines m @ [e]) = join_lines [s, m, e]"
proof -
  have "join_lines (s # split_lines m @ [e]) = s @ newline # join_lines (split_lines m @ [e])"
    by (rule join_lines_Cons) simp
  also have "join_lines (split_lines m @ [e]) = join_lines (split_lines m) @ newline # join_lines [e]"
    by (rule join_lines_append) (simp_all add: split_lines_nonempty)
  finally show ?thesis
    by (simp add: join_split_lines)
qed

text \<open>
  What \<open>add_block\<close> does to the lines of a text: the start line \<open>s\<close>, the lines \<open>ms\<close> of the
  statement and the end line \<open>e\<close> go between the first \<open>line\<close> lines and the rest.
\<close>

lemma add_block_shape:
  assumes "registered pattern" and "x \<noteq> []" and "list_all is_id_char x"
    and "1 \<le> line" and "line \<le> int (length (split_lines content))"
  shows "\<exists>s e. split_lines (snd (add_block pattern content line x lbl ex)) =
                 take (nat line) (split_lines content)
                 @ s # split_lines (target_indent content line @ render_log_line pattern x lbl ex)
                 @ e # drop (nat line) (split_lines content)
             \<and> fst (add_block pattern content line x lbl ex) =
                 join_lines (s # split_lines (target_indent content line @ render_log_line pattern x lbl ex) @ [e])
             \<and> start_of x s \<and> \<not> isEndMarker s \<and> end_of x e \<and> \<not> isStartMarker e
             \<and> newline \<notin> set s \<and> newline \<notin> set e"
proof -
  let ?ind = "target_indent content line"
  have ind: "list_all is_space ?ind" "newline \<notin> set ?ind"
    using target_indent_space target_indent_newline_free [OF assms(4,5)] by simp_all
  show ?thesis
    using add_block_lines [OF assms, of lbl ex] add_block_fst [of pattern content line x lbl ex]
      block_marker_lines [OF assms(1-3) ind] join_block_lines
    by (intro exI [of _ "?ind @ start_marker pattern x"] exI [of _ "?ind @ end_marker pattern x"])
       simp
qed

lemma other_id_not_marker:
  "extractMarkerId l = Some b \<Longrightarrow> a \<noteq> b \<Longrightarrow> \<not> start_of a l \<and> \<not> end_of a l"
  by (simp add: start_of_def end_of_def)

lemma scan_block_in_lines:
  assumes "start_of x sx"
    and "list_all (\<lambda>l. \<not> isStartMarker l \<and> \<not> isEndMarker l) mid"
    and "\<not> isStartMarker ex" and "end_of x ex"
  shows "\<lparr>blk_markerId = x, blk_startLine = length pre + 1,
          blk_endLine = length pre + length mid + 2,
          blk_content = join_lines (sx # mid @ [ex])\<rparr>
         \<in> set (scan_loop 0 None (pre @ sx # mid @ ex # post))"
proof -
  have mid: "list_all (\<lambda>l. \<not> isStartMarker l \<and> \<not> end_of x l) mid"
    using assms(2) by (simp add: list_all_iff end_of_def)
  have keep: "filter (\<lambda>l. \<not> isEndMarker l) mid = mid"
    using assms(2) by (simp add: list_all_iff)
  obtain bs c where "scan_loop 0 None (pre @ sx # mid @ ex # post)
      = bs @ scan_loop (0 + length pre) c (sx # mid @ ex # post)"
    using scan_loop_prefix by blast
  then show ?thesis
    using scan_loop_block [OF assms(1) mid assms(3,4), of "length pre" c post] keep
    by simp
qed


lemma fresh_take_drop:
  assumes "list_all P L"
  shows "list_all P (take n L)" and "list_all P (drop n L)"
  using assms by (auto simp: list_all_iff dest: in_set_takeD in_set_dropD)

text \<open>
  The lines left after removing block \<open>a\<close> from a text that holds the lines \<open>bb\<close> of another
  block outside of it, in both orders.
\<close>

lemma remove_keeps_block_before:
  assumes "list_all (\<lambda>l. \<not> start_of a l \<and> \<not> end_of a l) (xs @ bb @ ys)"
    and "start_of a s" and "list_all (\<lambda>l. \<not> end_of a l) (butlast ms)"
    and "end_of a e" and "\<not> isStartMarker e"
    and "list_all (\<lambda>l. \<not> start_of a l \<and> \<not> end_of a l) zs"
  shows "remove_loop a False (xs @ bb @ ys @ s # ms @ e # zs) = xs @ bb @ ys @ zs"
proof -
  have "remove_loop a False ((xs @ bb @ ys) @ s # ms @ e # zs) = (xs @ bb @ ys) @ remove_loop a False zs"
    using assms(1-5) by (rule remove_loop_block)
  then show ?thesis
    using remove_loop_fresh [OF assms(6)] by simp
qed

lemma remove_keeps_block_after:
  assumes "list_all (\<lambda>l. \<not> start_of a l \<and> \<not> end_of a l) xs"
    and "start_of a s" and "list_all (\<lambda>l. \<not> end_of a l) (butlast ms)"
    and "end_of a e" and "\<not> isStartMarker e"
    and "list_all (\<lambda>l. \<not> start_of a l \<and> \<not> end_of a l) (ys @ bb @ zs)"
  shows "remove_loop a False (xs @ s # ms @ e # ys @ bb @ zs) = xs @ ys @ bb @ zs"
proof -
  have "remove_loop a False (xs @ s # ms @ e # (ys @ bb @ zs)) = xs @ remove_loop a False (ys @ bb @ zs)"
    using assms(1-5) by (rule remove_loop_block)
  then show ?thesis
    using remove_loop_fresh [OF assms(6)] by simp
qed


text \<open>
  C9 (as the code has it). Block \<open>a\<close> is added after line \<open>i\<close> of a text, then block \<open>b\<close> after
  line \<open>j\<close> of the result, where line \<open>j\<close> does not lie inside block \<open>a\<close> (it is at or before
  line \<open>i\<close>, or at or after the last line of block \<open>a\<close>). The ids are well formed and
  different, the text holds no marker line of \<open>a\<close> beforehand, the statement of \<open>a\<close> has no
  end-marker line of \<open>a\<close> before its last line, and no line of the statement of \<open>b\<close> is a
  marker line. Then removing \<open>a\<close> leaves the lines of the original text, in order, with the
  lines of block \<open>b\<close> between them, and the scan reports block \<open>b\<close> with its full text.
\<close>

theorem remove_first_keeps_second_block:
  assumes "registered pattern"
    and "a \<noteq> []" and "list_all is_id_char a"
    and "b \<noteq> []" and "list_all is_id_char b"
    and "a \<noteq> b"
    and "1 \<le> i" and "i \<le> int (length (split_lines content))"
    and "blockA = fst (add_block pattern content i a lblA exA)"
    and "content1 = snd (add_block pattern content i a lblA exA)"
    and "1 \<le> j" and "j \<le> int (length (split_lines content1))"
    and "j \<le> i \<or> i + int (length (split_lines blockA)) \<le> j"
    and "blockB = fst (add_block pattern content1 j b lblB exB)"
    and "content2 = snd (add_block pattern content1 j b lblB exB)"
    and "list_all (\<lambda>l. \<not> start_of a l \<and> \<not> end_of a l) (split_lines content)"
    and "list_all (\<lambda>l. \<not> end_of a l)
           (butlast (split_lines (target_indent content i @ render_log_line pattern a lblA exA)))"
    and "list_all (\<lambda>l. \<not> isStartMarker l \<and> \<not> isEndMarker l)
           (split_lines (target_indent content1 j @ render_log_line pattern b lblB exB))"
  shows "\<exists>xs ys. split_lines content = xs @ ys
           \<and> split_lines (removeInstrumentationBlock content2 a) = xs @ split_lines blockB @ ys
           \<and> \<lparr>blk_markerId = b, blk_startLine = length xs + 1,
               blk_endLine = length xs + length (split_lines blockB),
               blk_content = blockB\<rparr>
             \<in> set (findInstrumentationBlocks (removeInstrumentationBlock content2 a) filePath)"
proof -
  let ?L = "split_lines content"
  let ?n = "nat i"
  let ?m = "nat j"
  let ?MA = "split_lines (target_indent content i @ render_log_line pattern a lblA exA)"
  let ?MB = "split_lines (target_indent content1 j @ render_log_line pattern b lblB exB)"
  let ?fresh = "\<lambda>l. \<not> start_of a l \<and> \<not> end_of a l"
  let ?free = "\<lambda>l. newline \<notin> set l"
  obtain sA eA where
    L1: "split_lines content1 = take ?n ?L @ sA # ?MA @ eA # drop ?n ?L"
    and bA: "blockA = join_lines (sA # ?MA @ [eA])"
    and A: "start_of a sA" "end_of a eA" "\<not> isStartMarker eA" "newline \<notin> set sA" "newline \<notin> set eA"
    using add_block_shape [OF assms(1-3,7,8), of lblA exA] unfolding assms(9,10) by blast
  obtain sB eB where
    L2: "split_lines content2 = take ?m (split_lines content1) @ sB # ?MB @ eB # drop ?m (split_lines content1)"
    and bB: "blockB = join_lines (sB # ?MB @ [eB])"
    and B: "start_of b sB" "\<not> isEndMarker sB" "end_of b eB" "\<not> isStartMarker eB"
      "newline \<notin> set sB" "newline \<notin> set eB"
    using add_block_shape [OF assms(1,4,5,11,12), of lblB exB] unfolding assms(14,15) by blast
  let ?BB = "sB # ?MB @ [eB]"
  have freeL: "list_all ?free ?L" and freeMA: "list_all ?free ?MA" and freeMB: "list_all ?free ?MB"
    by (rule split_lines_newline_free)+
  have freeBB: "list_all ?free ?BB"
    using B(5,6) freeMB by simp
  have linesA: "split_lines blockA = sA # ?MA @ [eA]"
    unfolding bA using A(4,5) freeMA by (intro split_join_lines) simp_all
  have linesB: "split_lines blockB = ?BB"
    unfolding bB using freeBB by (intro split_join_lines) simp_all
  have freshMB: "list_all ?fresh ?MB"
    using assms(18) by (simp add: list_all_iff start_of_def end_of_def)
  have freshBB: "list_all ?fresh ?BB"
    using freshMB other_id_not_marker [of sB b a] other_id_not_marker [of eB b a] B(1,3) assms(6)
    by (simp add: start_of_def end_of_def)
  have n: "?n \<le> length ?L"
    using assms(7,8) by linarith
  have "\<exists>xs ys. ?L = xs @ ys \<and> remove_loop a False (split_lines content2) = xs @ ?BB @ ys"
  proof (cases "j \<le> i")
    case True
    then have m: "?m \<le> ?n" by simp
    let ?xs = "take ?m ?L" and ?ys = "drop ?m (take ?n ?L)" and ?zs = "drop ?n ?L"
    have tk: "take ?m (split_lines content1) = ?xs"
      unfolding L1 using m n by (simp add: min_absorb1)
    have dr: "drop ?m (split_lines content1) = ?ys @ sA # ?MA @ eA # ?zs"
      unfolding L1 using m n by simp
    have whole: "?L = ?xs @ (?ys @ ?zs)"
    proof -
      have "?xs @ ?ys = take ?n ?L"
        using m by (metis append_take_drop_id min.absorb1 take_take)
      then show ?thesis
        by (metis append.assoc append_take_drop_id)
    qed
    have fresh: "list_all ?fresh (?xs @ ?BB @ ?ys)" "list_all ?fresh ?zs"
      using fresh_take_drop [OF assms(16)] freshBB
        fresh_take_drop(2) [OF fresh_take_drop(1) [OF assms(16), of ?n], of ?m]
      by simp_all
    have "split_lines content2 = ?xs @ ?BB @ ?ys @ sA # ?MA @ eA # ?zs"
      unfolding L2 tk dr by simp
    then have "remove_loop a False (split_lines content2) = ?xs @ ?BB @ ?ys @ ?zs"
      using remove_keeps_block_before [OF fresh(1) A(1) assms(17) A(2,3) fresh(2)] by simp
    with whole show ?thesis
      by (intro exI [of _ ?xs] exI [of _ "?ys @ ?zs"]) simp
  next
    case False
    with assms(13) have "i + int (length (split_lines blockA)) \<le> j"
      by simp
    then have m: "?n + (length ?MA + 2) \<le> ?m"
      using assms(7) by (simp add: linesA)
    define q where "q = ?m - (?n + (length ?MA + 2))"
    let ?xs = "take ?n ?L" and ?D = "drop ?n ?L"
    have len: "length (?xs @ sA # ?MA @ [eA]) = ?n + (length ?MA + 2)"
      using n by simp
    have L1': "split_lines content1 = (?xs @ sA # ?MA @ [eA]) @ ?D"
      unfolding L1 by simp
    have tk: "take ?m (split_lines content1) = (?xs @ sA # ?MA @ [eA]) @ take q ?D"
      unfolding L1' take_append len using m by (simp add: q_def)
    have dr: "drop ?m (split_lines content1) = drop q ?D"
      unfolding L1' drop_append len using m by (simp add: q_def)
    have fresh: "list_all ?fresh ?xs" "list_all ?fresh (take q ?D @ ?BB @ drop q ?D)"
      using fresh_take_drop [OF assms(16)] freshBB
        fresh_take_drop [OF fresh_take_drop(2) [OF assms(16), of ?n], of q]
      by simp_all
    have "split_lines content2 = ?xs @ sA # ?MA @ eA # take q ?D @ ?BB @ drop q ?D"
      unfolding L2 tk dr by simp
    then have "remove_loop a False (split_lines content2) = ?xs @ take q ?D @ ?BB @ drop q ?D"
      using remove_keeps_block_after [OF fresh(1) A(1) assms(17) A(2,3) fresh(2)] by simp
    moreover have "?L = (?xs @ take q ?D) @ drop q ?D"
      by (simp only: append.assoc append_take_drop_id)
    ultimately show ?thesis
      by (intro exI [of _ "?xs @ take q ?D"] exI [of _ "drop q ?D"]) simp
  qed
  then obtain xs ys where whole: "?L = xs @ ys"
    and removed: "remove_loop a False (split_lines content2) = xs @ ?BB @ ys"
    by blast
  have "list_all ?free (xs @ ys)"
    using freeL whole by simp
  then have "list_all ?free (xs @ ?BB @ ys)"
    using freeBB by simp
  then have lines: "split_lines (removeInstrumentationBlock content2 a) = xs @ ?BB @ ys"
    unfolding removeInstrumentationBlock_def removed by (intro split_join_lines) simp_all
  have mid: "list_all (\<lambda>l. \<not> isStartMarker l \<and> \<not> isEndMarker l) ?MB"
    by (rule assms(18))
  have "\<lparr>blk_markerId = b, blk_startLine = length xs + 1,
          blk_endLine = length xs + length ?MB + 2,
          blk_content = join_lines (sB # ?MB @ [eB])\<rparr>
        \<in> set (scan_loop 0 None (xs @ sB # ?MB @ eB # ys))"
    using B(1) mid B(4,3) by (rule scan_block_in_lines)
  then have found: "\<lparr>blk_markerId = b, blk_startLine = length xs + 1,
          blk_endLine = length xs + length ?MB + 2,
          blk_content = blockB\<rparr>
        \<in> set (scan_loop 0 None (xs @ sB # ?MB @ eB # ys))"
    unfolding bB [symmetric] .
  have len: "length (split_lines blockB) = length ?MB + 2"
    unfolding linesB by simp
  have scan_eq: "findInstrumentationBlocks (removeInstrumentationBlock content2 a) filePath
      = scan_loop 0 None (xs @ sB # ?MB @ eB # ys)"
    unfolding findInstrumentationBlocks_def lines by simp
  have member: "\<lparr>blk_markerId = b, blk_startLine = length xs + 1,
          blk_endLine = length xs + length (split_lines blockB),
          blk_content = blockB\<rparr>
        \<in> set (findInstrumentationBlocks (removeInstrumentationBlock content2 a) filePath)"
    unfolding scan_eq len using found by (simp only: add.assoc)
  have kept: "split_lines (removeInstrumentationBlock content2 a) = xs @ split_lines blockB @ ys"
    unfolding linesB lines by simp
  from whole kept member show ?thesis
    by (intro exI [of _ xs] exI [of _ ys] conjI)
qed


definition c9_content :: string where
  "c9_content = ''function f() {\<newline>  return 1;\<newline>}''"

definition c9_blockA :: string where
  "c9_blockA = fst (add_block JS_TS_PATTERN c9_content 1 ''aaaa1111'' ''entered'' None)"

definition c9_content1 :: string where
  "c9_content1 = snd (add_block JS_TS_PATTERN c9_content 1 ''aaaa1111'' ''entered'' None)"

definition c9_blockB :: string where
  "c9_blockB = fst (add_block JS_TS_PATTERN c9_content1 5 ''bbbb2222'' ''result'' (Some ''x''))"

definition c9_content2 :: string where
  "c9_content2 = snd (add_block JS_TS_PATTERN c9_content1 5 ''bbbb2222'' ''result'' (Some ''x''))"

theorem remove_first_keeps_second_block_witness:
  \<open>c9_blockB = join_lines [''  // [DEBUG-HELPER:bbbb2222] START'',
                           ''  console.log("[bbbb2222] result:", x);'',
                           ''  // [DEBUG-HELPER:bbbb2222] END'']
   \<and> length (split_lines c9_content2) = 9
   \<and> (\<exists>xs ys. split_lines c9_content = xs @ ys
         \<and> split_lines (removeInstrumentationBlock c9_content2 ''aaaa1111'') = xs @ split_lines c9_blockB @ ys
         \<and> \<lparr>blk_markerId = ''bbbb2222'', blk_startLine = length xs + 1,
             blk_endLine = length xs + length (split_lines c9_blockB),
             blk_content = c9_blockB\<rparr>
           \<in> set (findInstrumentationBlocks (removeInstrumentationBlock c9_content2 ''aaaa1111'') ''/work/f.js''))\<close>
proof -
  have 1: "registered JS_TS_PATTERN"
    by (simp add: registered_def)
  have 2: "''aaaa1111'' \<noteq> []" and 3: "list_all is_id_char ''aaaa1111''"
    and 4: "''bbbb2222'' \<noteq> []" and 5: "list_all is_id_char ''bbbb2222''"
    and 6: "''aaaa1111'' \<noteq> ''bbbb2222''"
    by code_simp+
  have 7: "(1::int) \<le> 1" and 8: "1 \<le> int (length (split_lines c9_content))"
    by code_simp+
  have 9: "(1::int) \<le> 5" and 10: "5 \<le> int (length (split_lines c9_content1))"
    by code_simp+
  have 11: "(5::int) \<le> 1 \<or> 1 + int (length (split_lines c9_blockA)) \<le> 5"
    by code_simp
  have 12: "list_all (\<lambda>l. \<not> start_of ''aaaa1111'' l \<and> \<not> end_of ''aaaa1111'' l) (split_lines c9_content)"
    by code_simp
  have 13: "list_all (\<lambda>l. \<not> end_of ''aaaa1111'' l)
      (butlast (split_lines (target_indent c9_content 1 @ render_log_line JS_TS_PATTERN ''aaaa1111'' ''entered'' None)))"
    by code_simp
  have 14: "list_all (\<lambda>l. \<not> isStartMarker l \<and> \<not> isEndMarker l)
      (split_lines (target_indent c9_content1 5 @ render_log_line JS_TS_PATTERN ''bbbb2222'' ''result'' (Some ''x'')))"
    by code_simp
  have b: \<open>c9_blockB = join_lines [''  // [DEBUG-HELPER:bbbb2222] START'',
                           ''  console.log("[bbbb2222] result:", x);'',
                           ''  // [DEBUG-HELPER:bbbb2222] END'']\<close>
    by code_simp
  have n: "length (split_lines c9_content2) = 9"
    by code_simp
  show ?thesis
    using b n
      remove_first_keeps_second_block [OF 1 2 3 4 5 6 7 8 c9_blockA_def c9_content1_def 9 10 11
        c9_blockB_def c9_content2_def 12 13 14, of "''/work/f.js''"]
    by (intro conjI)
qed

text \<open>
  The claim as stated fails when the second block is spliced inside the first: block
  \<open>bbbb2222\<close> is added after line 2, the start-marker line of block \<open>aaaa1111\<close>. Removing
  \<open>aaaa1111\<close> deletes everything from its start line to its end line, the lines of
  \<open>bbbb2222\<close> included, and the scan finds no block.
\<close>

definition c9_inner1 :: string where
  "c9_inner1 = snd (add_block JS_TS_PATTERN ''let x = 1;'' 1 ''aaaa1111'' ''entered'' None)"

definition c9_inner2 :: string where
  "c9_inner2 = snd (add_block JS_TS_PATTERN c9_inner1 2 ''bbbb2222'' ''result'' (Some ''x''))"

theorem remove_first_destroys_inner_block_counterexample:
  \<open>split_lines c9_inner2 =
     [''let x = 1;'',
      ''// [DEBUG-HELPER:aaaa1111] START'',
      ''// [DEBUG-HELPER:bbbb2222] START'',
      ''console.log("[bbbb2222] result:", x);'',
      ''// [DEBUG-HELPER:bbbb2222] END'',
      ''console.log("[aaaa1111] entered:");'',
      ''// [DEBUG-HELPER:aaaa1111] END'']
   \<and> removeInstrumentationBlock c9_inner2 ''aaaa1111'' = ''let x = 1;''
   \<and> findInstrumentationBlocks (removeInstrumentationBlock c9_inner2 ''aaaa1111'') ''/work/a.js'' = []\<close>
  by code_simp


section \<open>Statements of one line\<close>

lemma strip_prefix_split: "strip_prefix p s = Some r \<Longrightarrow> s = p @ r"
  by (induction p s rule: strip_prefix.induct) (auto split: if_splits)

lemma find_first_split: "find_first pat s = Some (pre, post) \<Longrightarrow> s = pre @ pat @ post"
proof (induction s arbitrary: pre)
  case Nil
  then show ?case by (simp split: if_splits)
next
  case (Cons c cs)
  show ?case
  proof (cases "strip_prefix pat (c # cs)")
    case (Some r)
    with Cons.prems show ?thesis
      by (auto dest: strip_prefix_split)
  next
    case None
    with Cons.prems obtain b where "find_first pat cs = Some (b, post)" and "pre = c # b"
      by (auto split: option.splits)
    with Cons.IH [of b] show ?thesis by simp
  qed
qed

lemma get_substitution_step:
  "get_substitution m pre post (c # d # r) = c # get_substitution m pre post r
   \<or> get_substitution m pre post (c # d # r) = m @ get_substitution m pre post r
   \<or> get_substitution m pre post (c # d # r) = pre @ get_substitution m pre post r
   \<or> get_substitution m pre post (c # d # r) = post @ get_substitution m pre post r
   \<or> get_substitution m pre post (c # d # r) = c # get_substitution m pre post (d # r)"
  by simp

lemma get_substitution_set_bounded:
  "length rep \<le> n \<Longrightarrow>
   set (get_substitution m pre post rep) \<subseteq> set m \<union> set pre \<union> set post \<union> set rep"
proof (induction n arbitrary: rep)
  case 0
  then show ?case by simp
next
  case (Suc n)
  show ?case
  proof (cases rep)
    case Nil
    then show ?thesis by simp
  next
    case (Cons c rest)
    show ?thesis
    proof (cases rest)
      case Nil
      with Cons show ?thesis by simp
    next
      case (Cons d r)
      let ?S = "set m \<union> set pre \<union> set post"
      have r: "set (get_substitution m pre post r) \<subseteq> ?S \<union> set r"
        using Suc.prems \<open>rep = c # rest\<close> Cons by (intro Suc.IH) simp
      have dr: "set (get_substitution m pre post (d # r)) \<subseteq> ?S \<union> set (d # r)"
        using Suc.prems \<open>rep = c # rest\<close> Cons by (intro Suc.IH) simp
      have "set (get_substitution m pre post (c # d # r)) \<subseteq> ?S \<union> set (c # d # r)"
        using get_substitution_step [of m pre post c d r] r dr
        by (elim disjE) (simp only:, auto)+
      then show ?thesis
        using \<open>rep = c # rest\<close> Cons by simp
    qed
  qed
qed

lemma get_substitution_set:
  "set (get_substitution m pre post rep) \<subseteq> set m \<union> set pre \<union> set post \<union> set rep"
  by (rule get_substitution_set_bounded [OF order_refl])

lemma js_replace_set: "set (js_replace s pat rep) \<subseteq> set s \<union> set rep"
proof (cases "find_first pat s")
  case None
  then show ?thesis by (simp add: js_replace_def)
next
  case (Some r)
  obtain pre post where r: "r = (pre, post)" by (cases r)
  with Some have "s = pre @ pat @ post"
    by (simp add: find_first_split)
  then have "set pat \<union> set pre \<union> set post \<subseteq> set s"
    by auto
  then show ?thesis
    using Some r get_substitution_set [of pat pre post rep]
    by (auto simp: js_replace_def)
qed

lemma js_replace_newline_free:
  "newline \<notin> set s \<Longrightarrow> newline \<notin> set rep \<Longrightarrow> newline \<notin> set (js_replace s pat rep)"
  using js_replace_set [of s pat rep] by auto

lemma template_newline_free: "registered pattern \<Longrightarrow> newline \<notin> set (log_template pattern)"
proof -
  have "newline \<notin> set (log_template JS_TS_PATTERN)" "newline \<notin> set (log_template PYTHON_PATTERN)"
    "newline \<notin> set (log_template RUST_PATTERN)" "newline \<notin> set (log_template GO_PATTERN)"
    by (simp_all add: JS_TS_PATTERN_def PYTHON_PATTERN_def RUST_PATTERN_def GO_PATTERN_def newline_def)
  then show "registered pattern \<Longrightarrow> newline \<notin> set (log_template pattern)"
    unfolding registered_def by blast
qed

lemma empty_newline_free: "newline \<notin> set []"
  by simp

lemma quote_newline_free: "newline \<notin> set [CHR 0x22]" "newline \<notin> set ([CHR 0x5C] @ [CHR 0x6E, CHR 0x22])"
  by (simp_all add: newline_def)

text \<open>
  A label, an expression and an id without a line break give a statement of one line; the
  condition on the statement in the round-trip theorem then holds, whatever the label says.
\<close>

lemma render_log_line_newline_free:
  assumes "registered pattern" and "newline \<notin> set x" and "newline \<notin> set lbl"
    and "case ex of None \<Rightarrow> True | Some e \<Rightarrow> newline \<notin> set e"
  shows "newline \<notin> set (render_log_line pattern x lbl ex)"
proof -
  note t = template_newline_free [OF assms(1)]
  show ?thesis
  proof (cases "if ex = Some [] then None else ex")
    case None
    show ?thesis
      unfolding render_log_line_def None option.case
      by (intro js_replace_newline_free t assms(2,3) empty_newline_free quote_newline_free)
  next
    case (Some e)
    then have "ex = Some e"
      by (simp split: if_splits)
    with assms(4) have e: "newline \<notin> set e" by simp
    then have e': "newline \<notin> set (''{'' @ e @ ''}'')"
      by (simp add: newline_def)
    show ?thesis
      unfolding render_log_line_def Some option.case
      by (intro js_replace_newline_free t assms(2,3) e e')
  qed
qed

lemma one_line_statement:
  assumes "newline \<notin> set indent" and "newline \<notin> set stmt"
  shows "butlast (split_lines (indent @ stmt)) = []"
  using assms by (simp add: split_lines_single)

end
